theory Spec2Isabelle
  imports Main "HOL-Library.Sublist"
begin

section \<open>Strings\<close>

text \<open>
  A Python \<open>str\<close> is modelled as a \<^typ>\<open>string\<close>, one \<^typ>\<open>char\<close> per code
  point, for the code points below 256 (Latin-1). The operators of \<open>str\<close> that
  \<open>server.py\<close> uses are:
  \<^item> \<open>a in s\<close>: \<^term>\<open>sublist a s\<close> (a contiguous occurrence);
  \<^item> \<open>s.endswith(a)\<close>: \<^term>\<open>suffix a s\<close>;
  \<^item> \<open>s.lower()\<close>: \<open>lower\<close>, which maps \<open>A-Z\<close> and the upper-case letters of
    Latin-1 (\<open>0xC0-0xDE\<close> without the multiplication sign \<open>0xD7\<close>) 32 code points up;
  \<^item> \<open>s.strip()\<close>: \<open>strip\<close>, which drops the leading and trailing characters that
    \<open>str.isspace\<close> accepts (\<open>0x09-0x0D\<close>, \<open>0x1C-0x20\<close>, \<open>0x85\<close>, \<open>0xA0\<close>).
\<close>

definition str_lower_char :: "char \<Rightarrow> char" where
  "str_lower_char c =
     (let n = (of_char c :: nat)
      in if (65 \<le> n \<and> n \<le> 90) \<or> (192 \<le> n \<and> n \<le> 222 \<and> n \<noteq> 215)
         then char_of (n + 32) else c)"

definition lower :: "string \<Rightarrow> string" where
  "lower s = map str_lower_char s"

definition isspace :: "char \<Rightarrow> bool" where
  "isspace c =
     (let n = (of_char c :: nat)
      in (9 \<le> n \<and> n \<le> 13) \<or> (28 \<le> n \<and> n \<le> 32) \<or> n = 133 \<or> n = 160)"

definition strip :: "string \<Rightarrow> string" where
  "strip s = rev (dropWhile isspace (rev (dropWhile isspace s)))"

text \<open>
  \<open>re.sub(p + r'\n?', '', s)\<close> for a literal, non-empty \<open>p\<close>: the scan goes from left to
  right; where \<open>p\<close> starts, \<open>p\<close> and one following newline (if there is one) are left out
  and the scan goes on behind them; elsewhere one character is copied. Both patterns of
  \<open>clean_html\<close> have this form.
\<close>

function re_sub_literal_nl :: "string \<Rightarrow> string \<Rightarrow> string" where
  "re_sub_literal_nl p s =
     (if s = [] then []
      else if p \<noteq> [] \<and> prefix p s then
        (let rest = drop (length p) s
         in re_sub_literal_nl p
              (if rest \<noteq> [] \<and> hd rest = CHR 0x0A then tl rest else rest))
      else hd s # re_sub_literal_nl p (tl s))"
  by pat_completeness auto
termination
  by (relation "measure (\<lambda>(p, s). length s)") (auto simp: Let_def)

declare re_sub_literal_nl.simps [simp del]

section \<open>The helpers of \<open>server.py\<close>\<close>

text \<open>\<open>clean_html\<close> (lines 49-57): the Text Normalizer.\<close>

definition clean_html :: "string \<Rightarrow> string" where
  "clean_html content =
     (let cleaned =
        (if sublist ''```html'' content then
           re_sub_literal_nl ''```'' (re_sub_literal_nl ''```html'' content)
         else if sublist ''```'' content then
           re_sub_literal_nl ''```'' content
         else content)
      in strip cleaned)"

text \<open>\<open>clean_html\<close> of \<open>showcase/server.py\<close> (lines 49-57), the same text.\<close>

definition showcase_clean_html :: "string \<Rightarrow> string" where
  "showcase_clean_html content =
     (let cleaned =
        (if sublist ''```html'' content then
           re_sub_literal_nl ''```'' (re_sub_literal_nl ''```html'' content)
         else if sublist ''```'' content then
           re_sub_literal_nl ''```'' content
         else content)
      in strip cleaned)"

text \<open>\<open>is_html_complete\<close> (lines 60-71): the Completeness Checker.\<close>

definition is_html_complete :: "string \<Rightarrow> bool" where
  "is_html_complete html =
     (let html_lower = strip (lower html);
          has_closing_html = sublist ''</html>'' html_lower;
          has_closing_body = sublist ''</body>'' html_lower;
          ends_properly = (suffix ''</html>'' html_lower \<or> suffix ''</html>\<newline>'' html_lower)
      in has_closing_html \<and> has_closing_body \<and> ends_properly)"

text \<open>
  \<open>get_continuation_context\<close> (lines 74-76): \<open>html[-chars:]\<close> when the text is longer than
  \<open>chars\<close>, the whole text otherwise. \<open>html[-0:]\<close> is the whole text.
\<close>

definition get_continuation_context :: "string \<Rightarrow> nat \<Rightarrow> string" where
  "get_continuation_context html chars =
     (if length html > chars
      then (if chars = 0 then html else drop (length html - chars) html)
      else html)"

section \<open>Requests, responses and errors\<close>

record GenerateSystemRequest =
  name :: string
  prompt :: string

record EditSystemRequest =
  fileName :: string
  comment :: string

record EditSystemResponse =
  success :: bool
  fileName :: string
  content :: string

record DeleteResponse =
  success :: bool
  fileName :: string

record GenerateSystemResponse =
  success :: bool
  fileName :: string
  path :: string
  content :: string

text \<open>
  A Python exception with its message \<open>str(e)\<close>, and FastAPI's \<open>HTTPException\<close> with its
  status code and detail.
\<close>

datatype exn = Exception string

primrec str :: "exn \<Rightarrow> string" where
  "str (Exception m) = m"

datatype http_error = HTTPException nat string

section \<open>The LLM Gateway and the Document Store\<close>

text \<open>
  The provider behind \<open>litellm.completion\<close> is outside the program. A run of the program
  sees it only through the answers it gives, one per call, so a provider is the sequence of
  these answers: \<open>provider k\<close> is what the call number \<open>k\<close> (counted from 0 over the life of
  the server) returns, the text \<open>response.choices[0].message.content\<close> or the exception
  raised. An answer without a text (\<open>None\<close>) makes the statement after the call raise, inside
  the same \<open>try\<close> block and before anything else happens, and counts as an exception of the
  call. Every provider, whatever its answers depend on, is one such sequence on each run.

  The world holds what the handlers read and write. Of the file system it holds, keyed by
  the name that is joined to the path of \<open>public/systems\<close> (names are compared as strings):
  \<^item> \<open>systems\<close>: the regular files and their texts;
  \<^item> \<open>non_files\<close>: the names under which something else exists, a directory for example
    (the empty name and \<open>.\<close> are the directory \<open>public/systems\<close> itself), each with the
    \<open>OSError\<close> that opening or unlinking it raises;
  \<^item> \<open>os_error\<close>: the exception, if any, that an operation raises for a name whatever is
    stored under it: a name that is too long or holds a NUL character, a directory that is
    missing on the way to the file, a missing permission;
  \<^item> \<open>write_fault\<close>: the exception, if any, that writing a text under a name raises after
    the file has been opened, and with that created or emptied (a text that cannot be
    encoded, a full disk), together with the text that the file is left with.

  It holds further \<open>REQUIREMENTS.MD\<close> when that file exists, its text as \<open>read_text\<close> returns
  it or the exception that \<open>exists\<close> or \<open>read_text\<close> raises, and the requests sent to the
  provider so far, oldest first.
\<close>

type_synonym provider = "nat \<Rightarrow> exn + string"

record completion_request =
  model :: string
  messages :: "(string \<times> string) list"
  max_tokens :: nat

datatype fs_op = Exists | Read_text | Write_text | Unlink

record world =
  systems :: "string \<rightharpoonup> string"
  non_files :: "string \<rightharpoonup> exn"
  os_error :: "fs_op \<Rightarrow> string \<rightharpoonup> exn"
  write_fault :: "string \<Rightarrow> string \<rightharpoonup> exn \<times> string"
  requirements_md :: "(exn + string) option"
  gateway_log :: "completion_request list"

text \<open>
  The four methods of \<open>pathlib.Path\<close> that the handlers call on a file of \<open>public/systems\<close>.
  \<open>read_text\<close> opens the file in text mode, which turns \<open>\r\n\<close> and \<open>\r\<close> into \<open>\n\<close>;
  \<open>write_text\<close> writes \<open>\n\<close> as it is (POSIX). \<open>write_text\<close> and \<open>unlink\<close> return the world
  they leave, \<open>write_text\<close> also when it raises: opening the file for writing empties it.
\<close>

definition path_exists :: "world \<Rightarrow> string \<Rightarrow> exn + bool" where
  "path_exists w file_name =
     (case os_error w Exists file_name of
        Some e \<Rightarrow> Inl e
      | None \<Rightarrow> Inr (systems w file_name \<noteq> None \<or> non_files w file_name \<noteq> None))"

fun universal_newlines :: "string \<Rightarrow> string" where
  "universal_newlines [] = []"
| "universal_newlines [c] = [if c = CHR 0x0D then CHR 0x0A else c]"
| "universal_newlines (c # d # s) =
     (if c = CHR 0x0D
      then (if d = CHR 0x0A then CHR 0x0A # universal_newlines s
            else CHR 0x0A # universal_newlines (d # s))
      else c # universal_newlines (d # s))"

definition read_text :: "world \<Rightarrow> string \<Rightarrow> exn + string" where
  "read_text w file_name =
     (case os_error w Read_text file_name of
        Some e \<Rightarrow> Inl e
      | None \<Rightarrow>
          (case non_files w file_name of
             Some e \<Rightarrow> Inl e
           | None \<Rightarrow>
               (case systems w file_name of
                  None \<Rightarrow> Inl (Exception ''[Errno 2] No such file or directory'')
                | Some body \<Rightarrow> Inr (universal_newlines body))))"

definition write_text :: "world \<Rightarrow> string \<Rightarrow> string \<Rightarrow> (exn + unit) \<times> world" where
  "write_text w file_name data =
     (case os_error w Write_text file_name of
        Some e \<Rightarrow> (Inl e, w)
      | None \<Rightarrow>
          (case non_files w file_name of
             Some e \<Rightarrow> (Inl e, w)
           | None \<Rightarrow>
               (case write_fault w file_name data of
                  Some (e, left) \<Rightarrow> (Inl e, w\<lparr>systems := (systems w)(file_name \<mapsto> left)\<rparr>)
                | None \<Rightarrow> (Inr (), w\<lparr>systems := (systems w)(file_name \<mapsto> data)\<rparr>))))"

definition unlink :: "world \<Rightarrow> string \<Rightarrow> exn + world" where
  "unlink w file_name =
     (case os_error w Unlink file_name of
        Some e \<Rightarrow> Inl e
      | None \<Rightarrow>
          (case non_files w file_name of
             Some e \<Rightarrow> Inl e
           | None \<Rightarrow>
               (case systems w file_name of
                  None \<Rightarrow> Inl (Exception ''[Errno 2] No such file or directory'')
                | Some body \<Rightarrow> Inr (w\<lparr>systems := (systems w)(file_name := None)\<rparr>))))"

text \<open>
  \<open>call_llm\<close> (lines 79-93). The temperature 0.7 is a constant of every request and is
  left out of the record.
\<close>

definition call_llm ::
  "provider \<Rightarrow> string \<Rightarrow> string \<Rightarrow> nat \<Rightarrow> world \<Rightarrow> (exn + string) \<times> world" where
  "call_llm provider user_prompt system_prompt max_tokens_arg w =
     (let messages0 = (if system_prompt \<noteq> [] then [(''system'', system_prompt)] else []);
          messages1 = messages0 @ [(''user'', user_prompt)];
          request = \<lparr>model = ''anthropic/claude-sonnet-4-5-20250929'',
                     messages = messages1, max_tokens = max_tokens_arg\<rparr>
      in (provider (length (gateway_log w)), w\<lparr>gateway_log := gateway_log w @ [request]\<rparr>))"

section \<open>Prompts\<close>

definition generate_system_prompt :: "string \<Rightarrow> string" where
  "generate_system_prompt requirements =
     ''You are an expert web designer and developer. Create a complete, self-contained HTML design system file.\<newline>\<newline>''
     @ (if requirements \<noteq> [] then ''Follow these requirements:\<newline>'' @ requirements @ ''\<newline>'' else [])
     @ ''\<newline>\<newline>IMPORTANT INSTRUCTIONS:\<newline>''
     @ ''- Create a COMPLETE single-file HTML document with embedded CSS and JavaScript\<newline>''
     @ ''- Include comprehensive design tokens using CSS custom properties\<newline>''
     @ ''- Include a full component library (buttons, inputs, cards, alerts, badges, tables, forms, etc.)\<newline>''
     @ ''- Make it fully accessible (WCAG 2.2 AA compliant)\<newline>''
     @ ''- Include interactive examples and documentation\<newline>''
     @ ''- The design should be unique, creative, and follow the user's aesthetic requirements\<newline>''
     @ ''- Include light/dark theme support\<newline>''
     @ ''- Output ONLY the HTML code, no explanations or markdown code blocks''"

definition generate_user_prompt :: "GenerateSystemRequest \<Rightarrow> string" where
  "generate_user_prompt request =
     ''Create a design system with the following characteristics: '' @ prompt request
     @ ''\<newline>\<newline>The design system should be named '' @ [CHR 0x22] @ name request @ [CHR 0x22]
     @ '' and should include all standard components while following the aesthetic described above.''"

definition continuation_prompt :: "string \<Rightarrow> string" where
  "continuation_prompt context =
     ''The previous response was cut off. Here is where it ended:\<newline>\<newline>...'' @ context
     @ ''\<newline>\<newline>Please continue from EXACTLY where this left off and complete the rest of the HTML document. ''
     @ ''Do NOT repeat any of the content shown above. Start immediately from where it was cut off and continue ''
     @ ''until the document is complete with proper closing tags (</body> and </html>).\<newline>\<newline>''
     @ ''Output ONLY the continuation HTML code, no explanations or markdown code blocks.''"

definition edit_system_prompt :: string where
  "edit_system_prompt =
     ''You are an expert web designer and developer. You are editing an existing HTML design system file based on user feedback.\<newline>\<newline>''
     @ ''IMPORTANT INSTRUCTIONS:\<newline>''
     @ ''- Modify the existing HTML design system according to the user's comment\<newline>''
     @ ''- Maintain the overall structure and existing components unless specifically asked to change them\<newline>''
     @ ''- Keep all CSS custom properties and design tokens consistent\<newline>''
     @ ''- Ensure accessibility is maintained (WCAG 2.2 AA compliant)\<newline>''
     @ ''- Output ONLY the complete modified HTML code, no explanations or markdown code blocks\<newline>''
     @ ''- Make surgical, precise changes based on the feedback''"

definition edit_user_prompt :: "string \<Rightarrow> string \<Rightarrow> string" where
  "edit_user_prompt existing_content comment_text =
     ''Here is the existing design system HTML:\<newline>\<newline>'' @ existing_content
     @ ''\<newline>\<newline>User feedback/change request: '' @ comment_text
     @ ''\<newline>\<newline>Please modify the design system according to this feedback and return the complete updated HTML.''"

section \<open>The continuation loop\<close>

text \<open>
  The loop of lines 131-158 stands a second time, character for character, in lines
  221-248. Its two variables are the fields of \<open>ContinuationState\<close>; \<open>loop_cond\<close> is the
  condition of the \<open>while\<close> and \<open>loop_body\<close> one pass through its body. An exception of the
  provider leaves the loop (and the handler's \<open>try\<close> block) at once.
\<close>

record ContinuationState =
  cleaned_html :: string
  continuation_attempts :: nat

definition max_continuations :: nat where
  "max_continuations = 5"

definition loop_cond :: "ContinuationState \<Rightarrow> bool" where
  "loop_cond s =
     (\<not> is_html_complete (cleaned_html s) \<and> continuation_attempts s < max_continuations)"

definition loop_body ::
  "provider \<Rightarrow> ContinuationState \<Rightarrow> world \<Rightarrow> (exn + ContinuationState) \<times> world" where
  "loop_body provider s w =
     (let attempts = continuation_attempts s + 1;
          context = get_continuation_context (cleaned_html s) 2000;
          (r, w') = call_llm provider (continuation_prompt context) [] 64000 w
      in case r of
           Inl e \<Rightarrow> (Inl e, w')
         | Inr continuation \<Rightarrow>
             (Inr \<lparr>cleaned_html = cleaned_html s @ ''\<newline>'' @ clean_html continuation,
                   continuation_attempts = attempts\<rparr>, w'))"

function continuation_loop ::
  "provider \<Rightarrow> ContinuationState \<Rightarrow> world \<Rightarrow> (exn + ContinuationState) \<times> world" where
  "continuation_loop provider s w =
     (if loop_cond s then
        (case loop_body provider s w of
           (Inl e, w') \<Rightarrow> (Inl e, w')
         | (Inr s', w') \<Rightarrow> continuation_loop provider s' w')
      else (Inr s, w))"
  by pat_completeness auto
termination
  by (relation "measure (\<lambda>(provider, s, w). max_continuations - continuation_attempts s)")
     (auto simp: loop_cond_def loop_body_def Let_def split: prod.splits sum.splits)

declare continuation_loop.simps [simp del]

text \<open>
  The Continuation Loop Engine of the spec (4.5): the first call, the normalization of its
  answer and the loop. It is lines 125-158 of the generate handler and lines 215-248 of
  the edit handler, which differ in the two prompts only.
\<close>

definition continuation_loop_engine ::
  "provider \<Rightarrow> string \<Rightarrow> string \<Rightarrow> world \<Rightarrow> (exn + ContinuationState) \<times> world" where
  "continuation_loop_engine provider user_prompt system_prompt w =
     (let (r, w1) = call_llm provider user_prompt system_prompt 64000 w
      in case r of
           Inl e \<Rightarrow> (Inl e, w1)
         | Inr html_content \<Rightarrow>
             continuation_loop provider
               \<lparr>cleaned_html = clean_html html_content, continuation_attempts = 0\<rparr> w1)"

section \<open>The handlers\<close>

text \<open>
  \<open>generate_design_system\<close> (lines 95-182). Every exception inside the \<open>try\<close> block, of
  reading \<open>REQUIREMENTS.MD\<close>, of a call of the provider or of writing the file, becomes the
  status 500; the file is written after the loop. The \<open>print\<close> statements of the handlers
  go to a standard output that is taken to accept every text; they change neither the
  result nor the world and are left out.
\<close>

definition generate_design_system ::
  "provider \<Rightarrow> world \<Rightarrow> GenerateSystemRequest
     \<Rightarrow> (http_error + GenerateSystemResponse) \<times> world" where
  "generate_design_system provider w request =
     (case (case requirements_md w of None \<Rightarrow> Inr [] | Some r \<Rightarrow> r) of
        Inl e \<Rightarrow>
          (Inl (HTTPException 500 (''Failed to generate design system: '' @ str e)), w)
      | Inr requirements \<Rightarrow>
          (let system_prompt = generate_system_prompt requirements;
               user_prompt = generate_user_prompt request
           in case continuation_loop_engine provider user_prompt system_prompt w of
                (Inl e, w2) \<Rightarrow>
                  (Inl (HTTPException 500 (''Failed to generate design system: '' @ str e)), w2)
              | (Inr s, w2) \<Rightarrow>
                  (let file_name =
                         map (\<lambda>c. if c = CHR '' '' then CHR ''-'' else c) (lower (name request))
                         @ ''.html''
                   in case write_text w2 file_name (cleaned_html s) of
                        (Inl e, w3) \<Rightarrow>
                          (Inl (HTTPException 500
                                  (''Failed to generate design system: '' @ str e)), w3)
                      | (Inr u, w3) \<Rightarrow>
                          (Inr \<lparr>GenerateSystemResponse.success = True,
                                GenerateSystemResponse.fileName = file_name,
                                GenerateSystemResponse.path = ''/systems/'' @ file_name,
                                GenerateSystemResponse.content = cleaned_html s\<rparr>, w3))))"

text \<open>
  \<open>edit_design_system\<close> (lines 184-270). The \<open>HTTPException\<close> raised for a path that does
  not exist passes through \<open>except HTTPException: raise\<close>; every other exception, of
  \<open>exists\<close>, \<open>read_text\<close>, a call of the provider or \<open>write_text\<close>, becomes the status 500.
\<close>

definition edit_design_system ::
  "provider \<Rightarrow> world \<Rightarrow> EditSystemRequest \<Rightarrow> (http_error + EditSystemResponse) \<times> world" where
  "edit_design_system provider w request =
     (case path_exists w (EditSystemRequest.fileName request) of
        Inl e \<Rightarrow> (Inl (HTTPException 500 (''Failed to edit design system: '' @ str e)), w)
      | Inr False \<Rightarrow> (Inl (HTTPException 404 ''Design system file not found''), w)
      | Inr True \<Rightarrow>
          (case read_text w (EditSystemRequest.fileName request) of
             Inl e \<Rightarrow>
               (Inl (HTTPException 500 (''Failed to edit design system: '' @ str e)), w)
           | Inr existing_content \<Rightarrow>
               (let user_prompt = edit_user_prompt existing_content (comment request)
                in case continuation_loop_engine provider user_prompt edit_system_prompt w of
                     (Inl e, w2) \<Rightarrow>
                       (Inl (HTTPException 500 (''Failed to edit design system: '' @ str e)), w2)
                   | (Inr s, w2) \<Rightarrow>
                       (case write_text w2 (EditSystemRequest.fileName request) (cleaned_html s) of
                          (Inl e, w3) \<Rightarrow>
                            (Inl (HTTPException 500
                                    (''Failed to edit design system: '' @ str e)), w3)
                        | (Inr u, w3) \<Rightarrow>
                            (Inr \<lparr>EditSystemResponse.success = True,
                                  EditSystemResponse.fileName = EditSystemRequest.fileName request,
                                  EditSystemResponse.content = cleaned_html s\<rparr>, w3)))))"

text \<open>
  \<open>delete_design_system\<close> (lines 293-317). The two \<open>HTTPException\<close>s pass through
  \<open>except HTTPException: raise\<close>; an exception of \<open>exists\<close> or \<open>unlink\<close> becomes the
  status 500.
\<close>

definition delete_design_system ::
  "world \<Rightarrow> string \<Rightarrow> (http_error + DeleteResponse) \<times> world" where
  "delete_design_system w file_name =
     (if sublist ''/'' file_name \<or> sublist [CHR 0x5C] file_name \<or> sublist ''..'' file_name
      then (Inl (HTTPException 400 ''Invalid file name''), w)
      else
        (case path_exists w file_name of
           Inl e \<Rightarrow> (Inl (HTTPException 500 (''Failed to delete design system: '' @ str e)), w)
         | Inr False \<Rightarrow> (Inl (HTTPException 404 ''Design system file not found''), w)
         | Inr True \<Rightarrow>
             (case unlink w file_name of
                Inl e \<Rightarrow>
                  (Inl (HTTPException 500 (''Failed to delete design system: '' @ str e)), w)
              | Inr w' \<Rightarrow>
                  (Inr \<lparr>DeleteResponse.success = True, DeleteResponse.fileName = file_name\<rparr>,
                   w'))))"

section \<open>Definitions for the statements\<close>

text \<open>
  From the spec's words (4.5, step e): a continuation is normalized and appended to the
  accumulated text behind a single newline; the text returned is the normalized first output
  followed by the continuations joined in this way.
\<close>

definition append_continuation :: "string \<Rightarrow> string \<Rightarrow> string" where
  "append_continuation acc out = acc @ ''\<newline>'' @ clean_html out"

definition spec_joined_outputs :: "string list \<Rightarrow> string" where
  "spec_joined_outputs outputs =
     foldl append_continuation (clean_html (hd outputs)) (tl outputs)"

text \<open>
  One iteration of the loop: the condition of the \<open>while\<close> holds and the body runs to its
  end, from one pair of loop variables and world to the next.
\<close>

definition iteration ::
  "provider \<Rightarrow> ContinuationState \<times> world \<Rightarrow> ContinuationState \<times> world \<Rightarrow> bool" where
  "iteration provider =
     (\<lambda>(s, w) (s', w'). loop_cond s \<and> loop_body provider s w = (Inr s', w'))"

text \<open>
  From the spec's words (section 6): the file name is the lower-cased display name with
  spaces replaced by hyphens, suffixed \<open>.html\<close>.
\<close>

definition spec_file_name :: "string \<Rightarrow> string" where
  "spec_file_name display_name =
     map (\<lambda>c. if c = CHR '' '' then CHR ''-'' else c) (lower display_name) @ ''.html''"

text \<open>Two worlds with the same file system; they may differ in the requests sent.\<close>

definition same_files :: "world \<Rightarrow> world \<Rightarrow> bool" where
  "same_files w w' =
     (systems w' = systems w \<and> non_files w' = non_files w \<and> os_error w' = os_error w
      \<and> write_fault w' = write_fault w \<and> requirements_md w' = requirements_md w)"

section \<open>Lemmas on strings\<close>

lemma strip_last_not_space: "strip s \<noteq> [] \<Longrightarrow> \<not> isspace (last (strip s))"
  unfolding strip_def
  by (metis hd_dropWhile last_rev rev_is_Nil_conv)

lemma dropWhile_strip: "dropWhile isspace (strip s) = strip s"
proof -
  let ?d = "dropWhile isspace s"
  let ?e = "dropWhile isspace (rev ?d)"
  have "rev ?d = takeWhile isspace (rev ?d) @ ?e" by simp
  then have d: "?d = rev ?e @ rev (takeWhile isspace (rev ?d))"
    by (metis rev_append rev_rev_ident)
  show ?thesis
  proof (cases "?e = []")
    case True
    with d have "?d = []"
      by (metis append_Nil hd_dropWhile rev.simps(1) rev_is_Nil_conv set_takeWhileD hd_in_set set_rev)
    then show ?thesis by (simp add: strip_def del: dropWhile_eq_Nil_conv)
  next
    case False
    then have "?d \<noteq> []"
      by (metis dropWhile.simps(1) rev_is_Nil_conv)
    then have "\<not> isspace (hd ?d)" by (rule hd_dropWhile)
    moreover have "hd ?d = hd (rev ?e)" using d False
      by (metis hd_append2 rev_is_Nil_conv)
    ultimately have "\<not> isspace (hd (rev ?e))" by simp
    then show ?thesis using False
      by (cases "rev ?e") (auto simp: strip_def)
  qed
qed

lemma strip_idem: "strip (strip s) = strip s"
proof -
  have "strip (strip s) = rev (dropWhile isspace (rev (strip s)))"
    by (simp add: strip_def [of "strip s"] dropWhile_strip)
  also have "\<dots> = rev (dropWhile isspace (dropWhile isspace (rev (dropWhile isspace s))))"
    by (simp add: strip_def)
  also have "\<dots> = strip s"
    by (simp add: strip_def dropWhile_idem)
  finally show ?thesis .
qed

lemma sublist_strip: "sublist x (strip s) \<Longrightarrow> sublist x s"
proof -
  have "suffix (dropWhile isspace s) s" by (rule suffix_dropWhile)
  moreover have "prefix (strip s) (dropWhile isspace s)"
    unfolding strip_def
    by (metis suffix_dropWhile suffix_to_prefix rev_rev_ident)
  ultimately have "sublist (strip s) s"
    by (meson prefix_imp_sublist suffix_imp_sublist sublist_order.order_trans)
  then show "sublist x (strip s) \<Longrightarrow> sublist x s"
    by (meson sublist_order.order_trans)
qed

lemma strip_append_space: "isspace c \<Longrightarrow> strip (t @ [c]) = strip t"
proof (cases "\<forall>x\<in>set t. isspace x")
  case True
  assume "isspace c"
  with True have "dropWhile isspace (t @ [c]) = []" and "dropWhile isspace t = []"
    by (simp_all add: dropWhile_append)
  then show ?thesis by (simp add: strip_def del: dropWhile_eq_Nil_conv)
next
  case False
  assume "isspace c"
  from False obtain x where "x \<in> set t" and "\<not> isspace x" by blast
  then have "dropWhile isspace (t @ [c]) = dropWhile isspace t @ [c]"
    by (rule dropWhile_append1)
  with \<open>isspace c\<close> show ?thesis by (simp add: strip_def)
qed

lemma re_sub_Nil: "re_sub_literal_nl p [] = []"
  by (simp add: re_sub_literal_nl.simps)

lemma re_sub_copy:
  "\<not> prefix p (c # cs) \<Longrightarrow> re_sub_literal_nl p (c # cs) = c # re_sub_literal_nl p cs"
  by (subst re_sub_literal_nl.simps) simp

lemma re_sub_match_nl:
  "p \<noteq> [] \<Longrightarrow> re_sub_literal_nl p (p @ CHR 0x0A # cs) = re_sub_literal_nl p cs"
  by (subst re_sub_literal_nl.simps) simp

lemma re_sub_match:
  "p \<noteq> [] \<Longrightarrow> cs = [] \<or> hd cs \<noteq> CHR 0x0A \<Longrightarrow>
     re_sub_literal_nl p (p @ cs) = re_sub_literal_nl p cs"
  by (subst re_sub_literal_nl.simps) auto

lemma re_sub_skip:
  "s \<noteq> [] \<Longrightarrow> p \<noteq> [] \<and> prefix p s \<Longrightarrow>
     re_sub_literal_nl p s =
       re_sub_literal_nl p
         (if drop (length p) s \<noteq> [] \<and> hd (drop (length p) s) = CHR 0x0A
          then tl (drop (length p) s) else drop (length p) s)"
  by (subst re_sub_literal_nl.simps) (simp add: Let_def)

lemma re_sub_no_match: "p \<noteq> [] \<Longrightarrow> \<not> sublist p s \<Longrightarrow> re_sub_literal_nl p s = s"
proof (induction s)
  case Nil
  then show ?case by (simp add: re_sub_Nil)
next
  case (Cons c cs)
  then have "\<not> prefix p (c # cs)" and "\<not> sublist p cs"
    by (auto simp: sublist_Cons_right)
  with Cons show ?case by (simp add: re_sub_copy)
qed

lemma re_sub_fence_hd:
  "s = [] \<or> hd s \<noteq> CHR 0x60 \<Longrightarrow>
     re_sub_literal_nl ''```'' s = [] \<or> hd (re_sub_literal_nl ''```'' s) \<noteq> CHR 0x60"
  by (cases s) (auto simp: re_sub_Nil re_sub_copy)

lemma re_sub_fence_free: "\<not> sublist ''```'' (re_sub_literal_nl ''```'' s)"
proof (induction "''```''" s rule: re_sub_literal_nl.induct)
  case (1 s)
  show ?case
  proof (cases s)
    case Nil
    then show ?thesis by (simp add: re_sub_Nil)
  next
    case (Cons c cs)
    show ?thesis
    proof (cases "prefix ''```'' s")
      case True
      let ?rest = "drop (length ''```'') s"
      let ?rest' = "if ?rest \<noteq> [] \<and> hd ?rest = CHR 0x0A then tl ?rest else ?rest"
      have ne: "s \<noteq> []" using Cons by simp
      have m: "''```'' \<noteq> [] \<and> prefix ''```'' s" using True by simp
      have "re_sub_literal_nl ''```'' s = re_sub_literal_nl ''```'' ?rest'"
        using ne m by (rule re_sub_skip)
      moreover have "\<not> sublist ''```'' (re_sub_literal_nl ''```'' ?rest')"
        using 1(1) [OF ne m refl] .
      ultimately show ?thesis by simp
    next
      case False
      with Cons have ih: "\<not> sublist ''```'' (re_sub_literal_nl ''```'' cs)"
        using 1(2) by simp
      have out: "re_sub_literal_nl ''```'' s = c # re_sub_literal_nl ''```'' cs"
        using False Cons by (simp add: re_sub_copy)
      have "\<not> prefix ''```'' (c # re_sub_literal_nl ''```'' cs)"
      proof (cases "cs = [] \<or> hd cs \<noteq> CHR 0x60")
        case True
        from re_sub_fence_hd [OF this] show ?thesis
          by (cases "re_sub_literal_nl ''```'' cs") (auto simp: prefix_Cons)
      next
        case False
        then obtain t where cs: "cs = CHR 0x60 # t" by (cases cs) auto
        show ?thesis
        proof (cases "c = CHR 0x60")
          case True
          with \<open>\<not> prefix ''```'' s\<close> Cons cs have t: "t = [] \<or> hd t \<noteq> CHR 0x60"
            by (cases t) (auto simp: prefix_Cons)
          then have "\<not> prefix ''```'' cs" using cs by (cases t) (auto simp: prefix_Cons)
          then have "re_sub_literal_nl ''```'' cs = CHR 0x60 # re_sub_literal_nl ''```'' t"
            using cs by (simp add: re_sub_copy)
          with re_sub_fence_hd [OF t] show ?thesis
            by (cases "re_sub_literal_nl ''```'' t") (auto simp: prefix_Cons)
        next
          case False
          then show ?thesis by (simp add: prefix_Cons)
        qed
      qed
      with ih out show ?thesis by (simp add: sublist_Cons_right)
    qed
  qed
qed

lemma subseq_re_sub: "subseq (re_sub_literal_nl p s) s"
proof (induction p s rule: re_sub_literal_nl.induct)
  case (1 p s)
  show ?case
  proof (cases "s = []")
    case True
    then show ?thesis by (simp add: re_sub_Nil)
  next
    case False
    show ?thesis
    proof (cases "p \<noteq> [] \<and> prefix p s")
      case True
      let ?rest = "drop (length p) s"
      let ?rest' = "if ?rest \<noteq> [] \<and> hd ?rest = CHR 0x0A then tl ?rest else ?rest"
      have "subseq (re_sub_literal_nl p ?rest') ?rest'"
        using 1(1) [OF False True refl] by simp
      moreover have "subseq ?rest' ?rest"
        by (cases ?rest) auto
      moreover have "subseq ?rest s"
        by (metis append_take_drop_id list_emb_append2 subseq_order.order_refl)
      moreover have "re_sub_literal_nl p s = re_sub_literal_nl p ?rest'"
        using False True by (rule re_sub_skip)
      ultimately show ?thesis
        by (metis subseq_order.order_trans)
    next
      case no: False
      with False have "re_sub_literal_nl p s = hd s # re_sub_literal_nl p (tl s)"
        by (subst re_sub_literal_nl.simps) auto
      moreover have "subseq (re_sub_literal_nl p (tl s)) (tl s)"
        using 1(2) [OF False no] .
      ultimately show ?thesis using False
        by (cases s) auto
    qed
  qed
qed

lemma tagged_imp_bare: "sublist ''```html'' s \<Longrightarrow> sublist ''```'' s"
proof -
  have "prefix ''```'' ''```html''" by simp
  then have "sublist ''```'' ''```html''" by (rule prefix_imp_sublist)
  then show "sublist ''```html'' s \<Longrightarrow> sublist ''```'' s"
    by (meson sublist_order.order_trans)
qed

lemma clean_html_fence_free: "\<not> sublist ''```'' (clean_html s)"
proof -
  have "\<not> sublist ''```'' (strip (re_sub_literal_nl ''```'' x))" for x
    using re_sub_fence_free sublist_strip by blast
  moreover have "\<not> sublist ''```'' s \<Longrightarrow> \<not> sublist ''```'' (strip s)"
    using sublist_strip by blast
  ultimately show ?thesis
    by (auto simp: clean_html_def Let_def)
qed

lemma clean_html_no_fence: "\<not> sublist ''```'' s \<Longrightarrow> clean_html s = strip s"
  using tagged_imp_bare [of s] by (auto simp: clean_html_def Let_def)

lemma clean_html_idem: "clean_html (clean_html s) = clean_html s"
proof -
  have "clean_html (clean_html s) = strip (clean_html s)"
    using clean_html_fence_free by (rule clean_html_no_fence)
  also have "\<dots> = clean_html s"
    by (simp add: clean_html_def Let_def strip_idem)
  finally show ?thesis .
qed

lemma showcase_clean_html_eq: "showcase_clean_html s = clean_html s"
  by (simp add: showcase_clean_html_def clean_html_def)

lemma no_fence_before_newline:
  assumes "\<not> sublist ''```'' t"
  shows "\<not> prefix ''```'' (t @ CHR 0x0A # u)"
proof (cases t)
  case Nil
  then show ?thesis by (simp add: prefix_Cons)
next
  case t1: (Cons a t1)
  show ?thesis
  proof (cases t1)
    case Nil
    with t1 show ?thesis by (simp add: prefix_Cons)
  next
    case t2: (Cons b t2)
    show ?thesis
    proof (cases t2)
      case Nil
      with t1 t2 show ?thesis by (simp add: prefix_Cons)
    next
      case (Cons c t3)
      with t1 t2 assms show ?thesis
        by (auto simp: prefix_Cons sublist_Cons_right)
    qed
  qed
qed

lemma no_tagged_before_newline:
  "\<not> sublist ''```'' t \<Longrightarrow> \<not> prefix ''```html'' (t @ CHR 0x0A # u)"
proof -
  have "prefix ''```'' ''```html''" by simp
  then have "prefix ''```html'' x \<Longrightarrow> prefix ''```'' x" for x
    by (meson prefix_order.order_trans)
  then show "\<not> sublist ''```'' t \<Longrightarrow> \<not> prefix ''```html'' (t @ CHR 0x0A # u)"
    using no_fence_before_newline by blast
qed

lemma no_tagged_in_tail:
  "\<not> sublist ''```'' t \<Longrightarrow> \<not> sublist ''```html'' (t @ ''\<newline>```'')"
proof (induction t)
  case Nil
  then show ?case by (simp add: sublist_Cons_right prefix_Cons)
next
  case (Cons a t)
  then have "\<not> sublist ''```'' t" by (simp add: sublist_Cons_right)
  with Cons.IH have "\<not> sublist ''```html'' (t @ ''\<newline>```'')" .
  moreover have "\<not> prefix ''```html'' ((a # t) @ ''\<newline>```'')"
    using no_tagged_before_newline [OF Cons.prems, of "''```''"] by simp
  ultimately show ?case by (simp add: sublist_Cons_right)
qed

lemma re_sub_fence_tail:
  "\<not> sublist ''```'' t \<Longrightarrow> re_sub_literal_nl ''```'' (t @ ''\<newline>```'') = t @ ''\<newline>''"
proof (induction t)
  case Nil
  have "re_sub_literal_nl ''```'' (''```'' @ []) = re_sub_literal_nl ''```'' []"
    by (rule re_sub_match) simp_all
  then show ?case by (simp add: re_sub_copy prefix_Cons re_sub_Nil)
next
  case (Cons a t)
  then have "\<not> sublist ''```'' t" by (simp add: sublist_Cons_right)
  with Cons.IH have "re_sub_literal_nl ''```'' (t @ ''\<newline>```'') = t @ ''\<newline>''" .
  moreover have "\<not> prefix ''```'' (a # t @ ''\<newline>```'')"
    using no_fence_before_newline [OF Cons.prems, of "''```''"] by simp
  ultimately show ?case by (simp add: re_sub_copy)
qed

lemma clean_html_round_trip:
  assumes "\<not> sublist ''```'' t"
  shows "clean_html (''```html\<newline>'' @ t @ ''\<newline>```'') = strip t"
proof -
  let ?content = "''```html\<newline>'' @ t @ ''\<newline>```''"
  have "prefix ''```html'' ?content" by simp
  then have tagged: "sublist ''```html'' ?content" by (rule prefix_imp_sublist)
  have "re_sub_literal_nl ''```html'' (''```html'' @ CHR 0x0A # (t @ ''\<newline>```''))
          = re_sub_literal_nl ''```html'' (t @ ''\<newline>```'')"
    by (rule re_sub_match_nl) simp
  also have "\<dots> = t @ ''\<newline>```''"
    using no_tagged_in_tail [OF assms] by (intro re_sub_no_match) simp_all
  finally have first: "re_sub_literal_nl ''```html'' ?content = t @ ''\<newline>```''" by simp
  have "clean_html ?content = strip (re_sub_literal_nl ''```'' (re_sub_literal_nl ''```html'' ?content))"
    using tagged unfolding clean_html_def Let_def by (simp only: if_True)
  also have "\<dots> = strip (t @ ''\<newline>'')"
    by (simp only: first re_sub_fence_tail [OF assms])
  also have "\<dots> = strip t"
    by (rule strip_append_space) (simp add: isspace_def)
  finally show ?thesis .
qed

lemma strip_no_newline_end: "\<not> suffix ''</html>\<newline>'' (strip x)"
proof
  assume a: "suffix ''</html>\<newline>'' (strip x)"
  then obtain ps where ps: "strip x = ps @ ''</html>\<newline>''"
    by (auto simp: suffix_def)
  then have "strip x \<noteq> []" and "last (strip x) = CHR 0x0A" by simp_all
  moreover have "isspace (CHR 0x0A)" by (simp add: isspace_def)
  ultimately show False using strip_last_not_space [of x] by simp
qed

lemma is_html_complete_iff:
  "is_html_complete s =
     (sublist ''</html>'' (strip (lower s)) \<and> sublist ''</body>'' (strip (lower s))
      \<and> suffix ''</html>'' (strip (lower s)))"
  by (simp add: is_html_complete_def Let_def strip_no_newline_end)

lemma dropWhile_append_stop:
  "ys \<noteq> [] \<Longrightarrow> \<not> P (hd ys) \<Longrightarrow> dropWhile P (xs @ ys) = dropWhile P xs @ ys"
  by (induction xs) (auto simp: neq_Nil_conv)

lemma strip_append_tag:
  "ys \<noteq> [] \<Longrightarrow> \<not> isspace (hd ys) \<Longrightarrow> \<not> isspace (last ys) \<Longrightarrow>
     strip (xs @ ys) = dropWhile isspace xs @ ys"
proof -
  assume ys: "ys \<noteq> []" and h: "\<not> isspace (hd ys)" and l: "\<not> isspace (last ys)"
  have "dropWhile isspace (xs @ ys) = dropWhile isspace xs @ ys"
    using ys h by (rule dropWhile_append_stop)
  moreover have "dropWhile isspace (rev ys @ zs) = rev ys @ zs" for zs
    using ys l by (cases "rev ys") (auto simp: hd_rev [symmetric] simp del: hd_rev)
  ultimately show ?thesis by (simp add: strip_def)
qed

lemma lower_html_tag: "lower ''</html>'' = ''</html>''"
  by code_simp

lemma lower_body_tag: "lower ''</body>'' = ''</body>''"
  by code_simp

lemma strip_between_tags:
  assumes "B \<noteq> []" "\<not> isspace (hd B)" "H \<noteq> []" "\<not> isspace (hd H)" "\<not> isspace (last H)"
  shows "strip (a @ B @ c @ H) = dropWhile isspace a @ B @ c @ H"
proof -
  have "strip ((a @ B @ c) @ H) = dropWhile isspace (a @ B @ c) @ H"
    using assms(3-5) by (rule strip_append_tag)
  moreover have "dropWhile isspace (a @ (B @ c)) = dropWhile isspace a @ (B @ c)"
    using assms(1,2) by (intro dropWhile_append_stop) simp_all
  ultimately show ?thesis by simp
qed

lemma complete_when_tags_in_order: "is_html_complete (u @ ''</body>'' @ v @ ''</html>'')"
proof -
  have low: "lower (u @ ''</body>'' @ v @ ''</html>'') = lower u @ ''</body>'' @ lower v @ ''</html>''"
    using lower_html_tag lower_body_tag by (simp add: lower_def)
  have sp: "\<not> isspace (CHR ''<'')" "\<not> isspace (CHR ''>'')"
    by (simp_all add: isspace_def)
  let ?h = "strip (lower (u @ ''</body>'' @ v @ ''</html>''))"
  have "strip (lower u @ ''</body>'' @ lower v @ ''</html>'')
          = dropWhile isspace (lower u) @ ''</body>'' @ lower v @ ''</html>''"
    using sp by (intro strip_between_tags) simp_all
  then have h: "?h = dropWhile isspace (lower u) @ ''</body>'' @ lower v @ ''</html>''"
    by (simp only: low)
  have "suffix ''</html>'' ?h"
    unfolding h by (metis append_assoc suffixI)
  moreover from this have "sublist ''</html>'' ?h" by (rule suffix_imp_sublist)
  moreover have "sublist ''</body>'' ?h"
    unfolding h by (metis append_assoc sublist_appendI)
  ultimately show ?thesis by (simp only: is_html_complete_iff simp_thms)
qed

lemma strip_sublist_self: "sublist (strip s) s"
  using sublist_strip [of "strip s" s] by simp

lemma subseq_clean_html: "subseq (clean_html s) s"
proof -
  have a: "subseq (strip x) x" for x
    by (rule sublist_imp_subseq) (rule strip_sublist_self)
  have b: "subseq (re_sub_literal_nl p x) x" for p x by (rule subseq_re_sub)
  have "subseq (strip (re_sub_literal_nl ''```'' (re_sub_literal_nl ''```html'' s))) s"
    by (meson a b subseq_order.order_trans)
  moreover have "subseq (strip (re_sub_literal_nl ''```'' s)) s"
    by (meson a b subseq_order.order_trans)
  ultimately show ?thesis using a [of s]
    by (simp add: clean_html_def Let_def)
qed

section \<open>Lemmas on the loop\<close>

lemma same_files_refl [simp]: "same_files w w"
  by (simp add: same_files_def)

lemma same_files_trans: "same_files w w1 \<Longrightarrow> same_files w1 w2 \<Longrightarrow> same_files w w2"
  by (simp add: same_files_def)

lemma same_files_systems: "same_files w w' \<Longrightarrow> systems w' = systems w"
  by (simp add: same_files_def)

lemma call_llm_result [simp]:
  "fst (call_llm provider u sp mt w) = provider (length (gateway_log w))"
  "same_files w (snd (call_llm provider u sp mt w))"
  "length (gateway_log (snd (call_llm provider u sp mt w))) = Suc (length (gateway_log w))"
  by (simp_all add: call_llm_def Let_def same_files_def)

lemma loop_body_Inr:
  assumes "provider (length (gateway_log w)) = Inr out"
  shows "\<exists>w'. loop_body provider s w =
           (Inr \<lparr>cleaned_html = append_continuation (cleaned_html s) out,
                 continuation_attempts = continuation_attempts s + 1\<rparr>, w')
         \<and> length (gateway_log w') = Suc (length (gateway_log w))
         \<and> same_files w w'"
proof -
  let ?c = "call_llm provider
              (continuation_prompt (get_continuation_context (cleaned_html s) 2000)) [] 64000 w"
  have "fst ?c = Inr out" using assms by simp
  then have "loop_body provider s w =
           (Inr \<lparr>cleaned_html = append_continuation (cleaned_html s) out,
                 continuation_attempts = continuation_attempts s + 1\<rparr>, snd ?c)"
    by (simp add: loop_body_def Let_def append_continuation_def case_prod_beta)
  then show ?thesis by (intro exI [of _ "snd ?c"]) simp
qed

lemma loop_body_Inl:
  assumes "provider (length (gateway_log w)) = Inl e"
  shows "\<exists>w'. loop_body provider s w = (Inl e, w')
         \<and> length (gateway_log w') = Suc (length (gateway_log w))
         \<and> same_files w w'"
proof -
  let ?c = "call_llm provider
              (continuation_prompt (get_continuation_context (cleaned_html s) 2000)) [] 64000 w"
  have "fst ?c = Inl e" using assms by simp
  then have "loop_body provider s w = (Inl e, snd ?c)"
    by (simp add: loop_body_def Let_def case_prod_beta)
  then show ?thesis by (intro exI [of _ "snd ?c"]) simp
qed

lemma loop_body_cases:
  "loop_body provider s w = (r, w') \<Longrightarrow>
     length (gateway_log w') = Suc (length (gateway_log w))
     \<and> same_files w w'
     \<and> (case provider (length (gateway_log w)) of
           Inl e \<Rightarrow> r = Inl e
         | Inr out \<Rightarrow> r = Inr \<lparr>cleaned_html = append_continuation (cleaned_html s) out,
                               continuation_attempts = continuation_attempts s + 1\<rparr>)"
proof (cases "provider (length (gateway_log w))")
  case (Inl e)
  assume "loop_body provider s w = (r, w')"
  with loop_body_Inl [of provider w e s] Inl show ?thesis by auto
next
  case (Inr out)
  assume "loop_body provider s w = (r, w')"
  with loop_body_Inr [of provider w out s] Inr show ?thesis by auto
qed

lemma continuation_loop_exit:
  "\<not> loop_cond s \<Longrightarrow> continuation_loop provider s w = (Inr s, w)"
  by (subst continuation_loop.simps) simp

lemma continuation_loop_raise:
  "loop_cond s \<Longrightarrow> loop_body provider s w = (Inl e, w') \<Longrightarrow>
     continuation_loop provider s w = (Inl e, w')"
  by (subst continuation_loop.simps) simp

lemma continuation_loop_step:
  "loop_cond s \<Longrightarrow> loop_body provider s w = (Inr s', w') \<Longrightarrow>
     continuation_loop provider s w = continuation_loop provider s' w'"
  by (subst continuation_loop.simps) simp

lemma continuation_loop_run:
  assumes "continuation_attempts s + length os \<le> max_continuations"
    and "\<forall>i<length os. provider (length (gateway_log w) + i) = Inr (os ! i)"
    and "\<forall>k<length os. \<not> is_html_complete (foldl append_continuation (cleaned_html s) (take k os))"
    and "is_html_complete (foldl append_continuation (cleaned_html s) os)
         \<or> continuation_attempts s + length os = max_continuations"
  shows "\<exists>w'. continuation_loop provider s w =
           (Inr \<lparr>cleaned_html = foldl append_continuation (cleaned_html s) os,
                 continuation_attempts = continuation_attempts s + length os\<rparr>, w')
         \<and> length (gateway_log w') = length (gateway_log w) + length os
         \<and> same_files w w'"
  using assms
proof (induction os arbitrary: s w)
  case Nil
  then have "\<not> loop_cond s" by (auto simp: loop_cond_def)
  then have "continuation_loop provider s w = (Inr s, w)" by (rule continuation_loop_exit)
  then show ?case by simp
next
  case (Cons out os)
  from Cons.prems(3) have "\<not> is_html_complete (cleaned_html s)" by force
  moreover from Cons.prems(1) have "continuation_attempts s < max_continuations" by simp
  ultimately have cond: "loop_cond s" by (simp add: loop_cond_def)
  from Cons.prems(2) have "provider (length (gateway_log w)) = Inr out" by force
  from loop_body_Inr [of provider w out s] this obtain w1 where
    body: "loop_body provider s w =
             (Inr \<lparr>cleaned_html = append_continuation (cleaned_html s) out,
                   continuation_attempts = continuation_attempts s + 1\<rparr>, w1)"
    and w1: "length (gateway_log w1) = Suc (length (gateway_log w))"
    and f1: "same_files w w1"
    by blast
  let ?s1 = "\<lparr>cleaned_html = append_continuation (cleaned_html s) out,
              continuation_attempts = continuation_attempts s + 1\<rparr>"
  have 1: "continuation_attempts ?s1 + length os \<le> max_continuations"
    using Cons.prems(1) by simp
  have 2: "\<forall>i<length os. provider (length (gateway_log w1) + i) = Inr (os ! i)"
  proof (intro allI impI)
    fix i assume "i < length os"
    then have "provider (length (gateway_log w) + Suc i) = Inr ((out # os) ! Suc i)"
      using Cons.prems(2) by (metis Suc_less_eq length_Cons)
    then show "provider (length (gateway_log w1) + i) = Inr (os ! i)"
      by (simp add: w1)
  qed
  have 3: "\<forall>k<length os. \<not> is_html_complete (foldl append_continuation (cleaned_html ?s1) (take k os))"
  proof (intro allI impI)
    fix k assume "k < length os"
    then have "\<not> is_html_complete (foldl append_continuation (cleaned_html s) (take (Suc k) (out # os)))"
      using Cons.prems(3) by (metis Suc_less_eq length_Cons)
    then show "\<not> is_html_complete (foldl append_continuation (cleaned_html ?s1) (take k os))"
      by simp
  qed
  have 4: "is_html_complete (foldl append_continuation (cleaned_html ?s1) os)
         \<or> continuation_attempts ?s1 + length os = max_continuations"
    using Cons.prems(4) by simp
  from Cons.IH [OF 1 2 3 4] obtain w' where
    "continuation_loop provider ?s1 w1 =
           (Inr \<lparr>cleaned_html = foldl append_continuation (cleaned_html ?s1) os,
                 continuation_attempts = continuation_attempts ?s1 + length os\<rparr>, w')"
    and "length (gateway_log w') = length (gateway_log w1) + length os"
    and "same_files w1 w'"
    by blast
  moreover have "continuation_loop provider s w = continuation_loop provider ?s1 w1"
    using cond body by (rule continuation_loop_step)
  ultimately show ?case using same_files_trans [OF f1] by (simp add: w1)
qed

lemma continuation_loop_effects:
  "continuation_loop provider s w = (r, w') \<Longrightarrow>
     same_files w w'
     \<and> length (gateway_log w) \<le> length (gateway_log w')
     \<and> length (gateway_log w') \<le> length (gateway_log w) + (max_continuations - continuation_attempts s)
     \<and> (\<forall>i e. length (gateway_log w) + i < length (gateway_log w')
            \<longrightarrow> provider (length (gateway_log w) + i) = Inl e
            \<longrightarrow> r = Inl e \<and> length (gateway_log w') = length (gateway_log w) + Suc i)"
proof (induction provider s w arbitrary: r w' rule: continuation_loop.induct)
  case (1 provider s w)
  show ?case
  proof (cases "loop_cond s")
    case False
    then have "continuation_loop provider s w = (Inr s, w)" by (rule continuation_loop_exit)
    with "1.prems" show ?thesis by simp
  next
    case True
    obtain x w1 where body: "loop_body provider s w = (x, w1)" by (cases "loop_body provider s w")
    from loop_body_cases [OF body] have
      w1: "length (gateway_log w1) = Suc (length (gateway_log w))"
      and f1: "same_files w w1"
      and x: "case provider (length (gateway_log w)) of
                Inl e \<Rightarrow> x = Inl e
              | Inr out \<Rightarrow> x = Inr \<lparr>cleaned_html = append_continuation (cleaned_html s) out,
                               continuation_attempts = continuation_attempts s + 1\<rparr>"
      by simp_all
    from True have lt: "continuation_attempts s < max_continuations" by (simp add: loop_cond_def)
    show ?thesis
    proof (cases x)
      case (Inl e)
      with True body have "continuation_loop provider s w = (Inl e, w1)"
        by (simp add: continuation_loop_raise)
      with "1.prems" have r: "r = Inl e" "w' = w1" by simp_all
      from x Inl have p: "provider (length (gateway_log w)) = Inl e"
        by (cases "provider (length (gateway_log w))") auto
      show ?thesis using r w1 f1 p lt
        by (auto simp: less_Suc_eq)
    next
      case (Inr s1)
      with True body have step: "continuation_loop provider s w = continuation_loop provider s1 w1"
        by (simp add: continuation_loop_step)
      with "1.prems" have run: "continuation_loop provider s1 w1 = (r, w')" by simp
      have s1: "continuation_attempts s1 = continuation_attempts s + 1"
        and p: "\<exists>out. provider (length (gateway_log w)) = Inr out"
        using x Inr by (cases "provider (length (gateway_log w))"; auto)+
      note ih = "1.IH" [OF True body [symmetric] Inr run]
      have a: "same_files w w'
          \<and> length (gateway_log w) \<le> length (gateway_log w')
          \<and> length (gateway_log w') \<le> length (gateway_log w) + (max_continuations - continuation_attempts s)"
        using ih w1 s1 lt same_files_trans [OF f1] by auto
      have b: "r = Inl e \<and> length (gateway_log w') = length (gateway_log w) + Suc i"
        if i: "length (gateway_log w) + i < length (gateway_log w')"
          and e: "provider (length (gateway_log w) + i) = Inl e" for i e
      proof (cases i)
        case 0
        with e p show ?thesis by simp
      next
        case (Suc j)
        with i e w1 have "length (gateway_log w1) + j < length (gateway_log w')"
          and "provider (length (gateway_log w1) + j) = Inl e" by simp_all
        with ih have "r = Inl e \<and> length (gateway_log w') = length (gateway_log w1) + Suc j"
          by blast
        with Suc w1 show ?thesis by simp
      qed
      from a b show ?thesis by blast
    qed
  qed
qed

lemma engine_first_call_raises:
  assumes "provider (length (gateway_log w)) = Inl e"
  shows "\<exists>w'. continuation_loop_engine provider user_prompt system_prompt w = (Inl e, w')
         \<and> same_files w w' \<and> length (gateway_log w') = Suc (length (gateway_log w))"
proof -
  let ?c = "call_llm provider user_prompt system_prompt 64000 w"
  have "fst ?c = Inl e" using assms by simp
  then have "continuation_loop_engine provider user_prompt system_prompt w = (Inl e, snd ?c)"
    by (simp add: continuation_loop_engine_def Let_def case_prod_beta)
  then show ?thesis by (intro exI [of _ "snd ?c"]) simp
qed

lemma engine_first_call_returns:
  assumes "provider (length (gateway_log w)) = Inr out"
  shows "\<exists>w1. same_files w w1 \<and> length (gateway_log w1) = Suc (length (gateway_log w))
           \<and> continuation_loop_engine provider user_prompt system_prompt w =
               continuation_loop provider
                 \<lparr>cleaned_html = clean_html out, continuation_attempts = 0\<rparr> w1"
proof -
  let ?c = "call_llm provider user_prompt system_prompt 64000 w"
  have "fst ?c = Inr out" using assms by simp
  then have "continuation_loop_engine provider user_prompt system_prompt w =
               continuation_loop provider
                 \<lparr>cleaned_html = clean_html out, continuation_attempts = 0\<rparr> (snd ?c)"
    by (simp add: continuation_loop_engine_def Let_def case_prod_beta)
  then show ?thesis by (intro exI [of _ "snd ?c"]) simp
qed

lemma spec_joined_take:
  "outputs \<noteq> [] \<Longrightarrow>
     spec_joined_outputs (take (Suc k) outputs)
       = foldl append_continuation (clean_html (hd outputs)) (take k (tl outputs))"
  by (cases outputs) (simp_all add: spec_joined_outputs_def)

lemma engine_run:
  assumes len: "length outputs = Suc n"
    and n: "n \<le> max_continuations"
    and answers: "\<forall>i\<le>n. provider (length (gateway_log w) + i) = Inr (outputs ! i)"
    and incomplete: "\<forall>k<n. \<not> is_html_complete (spec_joined_outputs (take (Suc k) outputs))"
    and last: "is_html_complete (spec_joined_outputs outputs) \<or> n = max_continuations"
  shows "\<exists>w'. continuation_loop_engine provider user_prompt system_prompt w =
           (Inr \<lparr>cleaned_html = spec_joined_outputs outputs, continuation_attempts = n\<rparr>, w')
         \<and> length (gateway_log w') = length (gateway_log w) + n + 1
         \<and> same_files w w'"
proof -
  from len obtain out os where outputs: "outputs = out # os" and os: "length os = n"
    by (cases outputs) auto
  from answers have "provider (length (gateway_log w)) = Inr out"
    using outputs by force
  from engine_first_call_returns [of provider w out user_prompt system_prompt] this obtain w1 where
    f1: "same_files w w1" and w1: "length (gateway_log w1) = Suc (length (gateway_log w))"
    and eng: "continuation_loop_engine provider user_prompt system_prompt w =
               continuation_loop provider
                 \<lparr>cleaned_html = clean_html out, continuation_attempts = 0\<rparr> w1"
    by blast
  let ?s0 = "\<lparr>cleaned_html = clean_html out, continuation_attempts = 0\<rparr>"
  have 1: "continuation_attempts ?s0 + length os \<le> max_continuations"
    using n os by simp
  have 2: "\<forall>i<length os. provider (length (gateway_log w1) + i) = Inr (os ! i)"
  proof (intro allI impI)
    fix i assume "i < length os"
    then have "Suc i \<le> n" using os by simp
    with answers have "provider (length (gateway_log w) + Suc i) = Inr (outputs ! Suc i)"
      by blast
    then show "provider (length (gateway_log w1) + i) = Inr (os ! i)"
      by (simp add: w1 outputs)
  qed
  have 3: "\<forall>k<length os. \<not> is_html_complete
             (foldl append_continuation (cleaned_html ?s0) (take k os))"
    using incomplete os spec_joined_take [of outputs] outputs by simp
  have 4: "is_html_complete (foldl append_continuation (cleaned_html ?s0) os)
         \<or> continuation_attempts ?s0 + length os = max_continuations"
    using last os outputs by (simp add: spec_joined_outputs_def)
  from continuation_loop_run [OF 1 2 3 4] obtain w2 where
    loop: "continuation_loop provider ?s0 w1 =
           (Inr \<lparr>cleaned_html = foldl append_continuation (cleaned_html ?s0) os,
                 continuation_attempts = continuation_attempts ?s0 + length os\<rparr>, w2)"
    and w2: "length (gateway_log w2) = length (gateway_log w1) + length os"
    and f2: "same_files w1 w2"
    by blast
  have joined: "foldl append_continuation (cleaned_html ?s0) os = spec_joined_outputs outputs"
    by (simp add: spec_joined_outputs_def outputs)
  show ?thesis
    using eng loop joined w1 w2 os same_files_trans [OF f1 f2]
    by (intro exI [of _ w2]) simp
qed

lemma engine_effects:
  assumes "continuation_loop_engine provider user_prompt system_prompt w = (r, w')"
  shows "same_files w w'
     \<and> length (gateway_log w) < length (gateway_log w')
     \<and> (\<forall>i e. length (gateway_log w) + i < length (gateway_log w')
            \<longrightarrow> provider (length (gateway_log w) + i) = Inl e
            \<longrightarrow> r = Inl e \<and> length (gateway_log w') = length (gateway_log w) + Suc i)"
proof (cases "provider (length (gateway_log w))")
  case (Inl e0)
  from engine_first_call_raises [of provider w e0 user_prompt system_prompt] Inl assms
  have r: "r = Inl e0" and f: "same_files w w'"
    and l: "length (gateway_log w') = Suc (length (gateway_log w))"
    by auto
  have "e = e0 \<and> i = 0" if "length (gateway_log w) + i < length (gateway_log w')"
    and "provider (length (gateway_log w) + i) = Inl e" for i e
    using that l Inl by (cases i) auto
  with r f l show ?thesis by auto
next
  case (Inr out)
  from engine_first_call_returns [of provider w out user_prompt system_prompt] Inr assms
  obtain w1 where f1: "same_files w w1"
    and w1: "length (gateway_log w1) = Suc (length (gateway_log w))"
    and loop: "continuation_loop provider
                 \<lparr>cleaned_html = clean_html out, continuation_attempts = 0\<rparr> w1 = (r, w')"
    by auto
  note eff = continuation_loop_effects [OF loop]
  have "r = Inl e \<and> length (gateway_log w') = length (gateway_log w) + Suc i"
    if i: "length (gateway_log w) + i < length (gateway_log w')"
      and e: "provider (length (gateway_log w) + i) = Inl e" for i e
  proof (cases i)
    case 0
    with e Inr show ?thesis by simp
  next
    case (Suc j)
    with i e w1 have "length (gateway_log w1) + j < length (gateway_log w')"
      and "provider (length (gateway_log w1) + j) = Inl e" by simp_all
    with eff have "r = Inl e \<and> length (gateway_log w') = length (gateway_log w1) + Suc j"
      by blast
    with Suc w1 show ?thesis by simp
  qed
  with eff w1 same_files_trans [OF f1] show ?thesis by auto
qed

lemma iteration_step:
  assumes "iteration provider (s, w) (s', w')"
  shows "loop_cond s \<and> continuation_attempts s' = continuation_attempts s + 1
         \<and> (\<exists>out. cleaned_html s' = cleaned_html s @ ''\<newline>'' @ clean_html out)
         \<and> length (gateway_log w') = Suc (length (gateway_log w))"
proof -
  from assms have cond: "loop_cond s" and body: "loop_body provider s w = (Inr s', w')"
    by (simp_all add: iteration_def)
  from loop_body_cases [OF body] show ?thesis
    using cond
    by (cases "provider (length (gateway_log w))") (auto simp: append_continuation_def)
qed

lemma iteration_chain:
  "(iteration provider ^^ n) (s0, w0) (s, w) \<Longrightarrow>
     continuation_attempts s = continuation_attempts s0 + n
     \<and> length (cleaned_html s0) + n \<le> length (cleaned_html s)
     \<and> length (gateway_log w) = length (gateway_log w0) + n
     \<and> (0 < n \<longrightarrow> continuation_attempts s \<le> max_continuations)"
proof (induction n arbitrary: s w)
  case 0
  then show ?case by simp
next
  case (Suc n)
  then obtain s1 w1 where chain: "(iteration provider ^^ n) (s0, w0) (s1, w1)"
    and step: "iteration provider (s1, w1) (s, w)"
    by auto
  from iteration_step [OF step] have "loop_cond s1"
    and "continuation_attempts s = continuation_attempts s1 + 1"
    and "length (cleaned_html s1) < length (cleaned_html s)"
    and "length (gateway_log w) = Suc (length (gateway_log w1))"
    by auto
  with Suc.IH [OF chain] show ?case by (auto simp: loop_cond_def)
qed

lemma continuation_loop_chain:
  "continuation_loop provider s0 w0 = (r, w') \<Longrightarrow>
     \<exists>n s w. (iteration provider ^^ n) (s0, w0) (s, w)
       \<and> (r = Inr s \<and> w' = w \<and> \<not> loop_cond s
           \<or> (\<exists>e. r = Inl e \<and> loop_cond s \<and> loop_body provider s w = (Inl e, w')))"
proof (induction provider s0 w0 arbitrary: r w' rule: continuation_loop.induct)
  case (1 provider s0 w0)
  show ?case
  proof (cases "loop_cond s0")
    case False
    then have "continuation_loop provider s0 w0 = (Inr s0, w0)" by (rule continuation_loop_exit)
    with "1.prems" False have "(iteration provider ^^ 0) (s0, w0) (s0, w0)
        \<and> r = Inr s0 \<and> w' = w0 \<and> \<not> loop_cond s0" by simp
    then show ?thesis by blast
  next
    case True
    obtain x w1 where body: "loop_body provider s0 w0 = (x, w1)"
      by (cases "loop_body provider s0 w0")
    show ?thesis
    proof (cases x)
      case (Inl e)
      with True body have "continuation_loop provider s0 w0 = (Inl e, w1)"
        by (simp add: continuation_loop_raise)
      with "1.prems" True body Inl have "(iteration provider ^^ 0) (s0, w0) (s0, w0)
        \<and> r = Inl e \<and> loop_cond s0 \<and> loop_body provider s0 w0 = (Inl e, w')" by simp
      then show ?thesis by blast
    next
      case (Inr s1)
      with True body have "continuation_loop provider s0 w0 = continuation_loop provider s1 w1"
        by (simp add: continuation_loop_step)
      with "1.prems" have run: "continuation_loop provider s1 w1 = (r, w')" by simp
      from "1.IH" [OF True body [symmetric] Inr run] obtain n s w where
        chain: "(iteration provider ^^ n) (s1, w1) (s, w)"
        and fin: "r = Inr s \<and> w' = w \<and> \<not> loop_cond s
           \<or> (\<exists>e. r = Inl e \<and> loop_cond s \<and> loop_body provider s w = (Inl e, w'))"
        by blast
      have "iteration provider (s0, w0) (s1, w1)"
        using True body Inr by (simp add: iteration_def)
      with chain have "(iteration provider ^^ Suc n) (s0, w0) (s, w)"
        by (meson relpowp_Suc_I2)
      with fin show ?thesis by blast
    qed
  qed
qed

section \<open>Lemmas on the handlers\<close>

lemma write_text_Inr:
  "write_text w n c = (Inr u, w3) \<Longrightarrow> w3 = w\<lparr>systems := (systems w)(n \<mapsto> c)\<rparr>"
  by (auto simp: write_text_def split: option.splits)

lemma write_text_log [simp]:
  "gateway_log (snd (write_text w n c)) = gateway_log w"
  by (auto simp: write_text_def split: option.splits)

lemma write_text_same_files:
  assumes "same_files w w2"
  shows "fst (write_text w2 n c) = fst (write_text w n c)"
    and "systems (snd (write_text w2 n c)) = systems (snd (write_text w n c))"
  using assms by (auto simp: write_text_def same_files_def split: option.splits)

lemma requirements_readable:
  "\<forall>e. requirements_md w \<noteq> Some (Inl e) \<Longrightarrow>
     \<exists>req. (case requirements_md w of None \<Rightarrow> Inr [] | Some r \<Rightarrow> r) = Inr req"
  by (cases "requirements_md w") (auto intro: sum.exhaust)

lemma generate_unfold:
  assumes "(case requirements_md w of None \<Rightarrow> Inr [] | Some r \<Rightarrow> r) = Inr req"
    and "continuation_loop_engine provider (generate_user_prompt request)
           (generate_system_prompt req) w = (x, w2)"
  shows "generate_design_system provider w request =
     (case x of
        Inl e \<Rightarrow> (Inl (HTTPException 500 (''Failed to generate design system: '' @ str e)), w2)
      | Inr s \<Rightarrow>
         (case write_text w2 (spec_file_name (name request)) (cleaned_html s) of
            (Inl e, w3) \<Rightarrow>
              (Inl (HTTPException 500 (''Failed to generate design system: '' @ str e)), w3)
          | (Inr u, w3) \<Rightarrow>
              (Inr \<lparr>GenerateSystemResponse.success = True,
                    GenerateSystemResponse.fileName = spec_file_name (name request),
                    GenerateSystemResponse.path = ''/systems/'' @ spec_file_name (name request),
                    GenerateSystemResponse.content = cleaned_html s\<rparr>, w3)))"
  unfolding generate_design_system_def Let_def spec_file_name_def
  using assms by (simp split: sum.splits)

lemma generate_requirements_raise:
  "requirements_md w = Some (Inl e) \<Longrightarrow>
     generate_design_system provider w request =
       (Inl (HTTPException 500 (''Failed to generate design system: '' @ str e)), w)"
  by (simp add: generate_design_system_def)

lemma generate_after_engine:
  assumes rq: "\<forall>e. requirements_md w \<noteq> Some (Inl e)"
    and eng: "\<And>up sp. \<exists>w2. continuation_loop_engine provider up sp w = (Inr s, w2)
                \<and> length (gateway_log w2) = length (gateway_log w) + k \<and> same_files w w2"
  shows "length (gateway_log (snd (generate_design_system provider w request)))
           = length (gateway_log w) + k
     \<and> (\<forall>w3. write_text w (spec_file_name (name request)) (cleaned_html s) = (Inr (), w3) \<longrightarrow>
           fst (generate_design_system provider w request) =
             Inr \<lparr>GenerateSystemResponse.success = True,
                  GenerateSystemResponse.fileName = spec_file_name (name request),
                  GenerateSystemResponse.path = ''/systems/'' @ spec_file_name (name request),
                  GenerateSystemResponse.content = cleaned_html s\<rparr>
           \<and> systems (snd (generate_design_system provider w request))
               = (systems w)(spec_file_name (name request) \<mapsto> cleaned_html s))
     \<and> (\<forall>e w3. write_text w (spec_file_name (name request)) (cleaned_html s) = (Inl e, w3) \<longrightarrow>
           fst (generate_design_system provider w request)
             = Inl (HTTPException 500 (''Failed to generate design system: '' @ str e))
           \<and> systems (snd (generate_design_system provider w request)) = systems w3)"
proof -
  from requirements_readable [OF rq] obtain req where
    req: "(case requirements_md w of None \<Rightarrow> Inr [] | Some r \<Rightarrow> r) = Inr req" by blast
  from eng [of "generate_user_prompt request" "generate_system_prompt req"] obtain w2 where
    e: "continuation_loop_engine provider (generate_user_prompt request)
           (generate_system_prompt req) w = (Inr s, w2)"
    and l: "length (gateway_log w2) = length (gateway_log w) + k"
    and f: "same_files w w2"
    by blast
  let ?fn = "spec_file_name (name request)"
  note g = generate_unfold [OF req e]
  obtain r w3' where wt2: "write_text w2 ?fn (cleaned_html s) = (r, w3')"
    by (cases "write_text w2 ?fn (cleaned_html s)")
  have r: "fst (write_text w ?fn (cleaned_html s)) = r"
    and sy: "systems (snd (write_text w ?fn (cleaned_html s))) = systems w3'"
    using write_text_same_files [OF f, of ?fn "cleaned_html s"] wt2 by simp_all
  have lg: "gateway_log w3' = gateway_log w2"
    using write_text_log [of w2 ?fn "cleaned_html s"] wt2 by simp
  show ?thesis
  proof (cases r)
    case (Inl e2)
    with g wt2 have gen: "generate_design_system provider w request
        = (Inl (HTTPException 500 (''Failed to generate design system: '' @ str e2)), w3')"
      by simp
    from r sy Inl show ?thesis unfolding gen by (auto simp: lg l)
  next
    case (Inr u)
    with g wt2 have gen: "generate_design_system provider w request
        = (Inr \<lparr>GenerateSystemResponse.success = True,
                GenerateSystemResponse.fileName = ?fn,
                GenerateSystemResponse.path = ''/systems/'' @ ?fn,
                GenerateSystemResponse.content = cleaned_html s\<rparr>, w3')"
      by simp
    have "systems w3' = (systems w)(?fn \<mapsto> cleaned_html s)"
      if "write_text w ?fn (cleaned_html s) = (Inr (), w3)" for w3
      using write_text_Inr [OF that] sy that by simp
    with r Inr show ?thesis unfolding gen by (auto simp: lg l)
  qed
qed

lemma sublist_single: "sublist [c] s \<longleftrightarrow> c \<in> set s"
  by (induction s) (auto simp: sublist_Cons_right)

lemma path_exists_False_iff:
  "path_exists w n = Inr False
     \<longleftrightarrow> os_error w Exists n = None \<and> systems w n = None \<and> non_files w n = None"
  by (auto simp: path_exists_def split: option.splits)

lemma edit_not_found:
  "path_exists w (EditSystemRequest.fileName request) = Inr False \<Longrightarrow>
     edit_design_system provider w request
       = (Inl (HTTPException 404 ''Design system file not found''), w)"
  by (simp add: edit_design_system_def)

lemma edit_exists_raises:
  "path_exists w (EditSystemRequest.fileName request) = Inl e \<Longrightarrow>
     edit_design_system provider w request
       = (Inl (HTTPException 500 (''Failed to edit design system: '' @ str e)), w)"
  by (simp add: edit_design_system_def)

lemma edit_read_raises:
  "path_exists w (EditSystemRequest.fileName request) = Inr True \<Longrightarrow>
   read_text w (EditSystemRequest.fileName request) = Inl e \<Longrightarrow>
     edit_design_system provider w request
       = (Inl (HTTPException 500 (''Failed to edit design system: '' @ str e)), w)"
  by (simp add: edit_design_system_def)

lemma edit_outcomes:
  "(\<exists>e. fst (edit_design_system provider w request)
            = Inl (HTTPException 500 (''Failed to edit design system: '' @ str e)))
   \<or> (\<exists>response. fst (edit_design_system provider w request) = Inr response)
   \<or> (path_exists w (EditSystemRequest.fileName request) = Inr False
       \<and> fst (edit_design_system provider w request)
           = Inl (HTTPException 404 ''Design system file not found''))"
proof (cases "path_exists w (EditSystemRequest.fileName request)")
  case (Inl e)
  from edit_exists_raises [OF this] show ?thesis by auto
next
  case (Inr b)
  show ?thesis
  proof (cases b)
    case False
    with Inr edit_not_found [of w request provider] show ?thesis by simp
  next
    case True
    show ?thesis
    proof (cases "read_text w (EditSystemRequest.fileName request)")
      case (Inl e)
      from edit_read_raises [OF _ this, of provider] Inr True show ?thesis by auto
    next
      case r: (Inr existing_content)
      obtain x w2 where eng: "continuation_loop_engine provider
          (edit_user_prompt existing_content (comment request)) edit_system_prompt w = (x, w2)"
        by (cases "continuation_loop_engine provider
          (edit_user_prompt existing_content (comment request)) edit_system_prompt w")
      show ?thesis
      proof (cases x)
        case (Inl e)
        with Inr True r eng show ?thesis
          by (auto simp: edit_design_system_def Let_def)
      next
        case s: (Inr s)
        obtain x3 w3 where wt:
          "write_text w2 (EditSystemRequest.fileName request) (cleaned_html s) = (x3, w3)"
          by (cases "write_text w2 (EditSystemRequest.fileName request) (cleaned_html s)")
        with Inr True r eng s show ?thesis
          by (cases x3) (auto simp: edit_design_system_def Let_def)
      qed
    qed
  qed
qed

section \<open>The Completeness Checker\<close>

text \<open>
  Claim C4. \<open>is_html_complete s\<close> is true exactly when the lower-cased, trimmed text contains
  the closing root tag, contains the closing body tag and ends with the closing root tag;
  the alternative ending with a newline never applies to a trimmed text. So a text that
  lacks one of the two tags is incomplete, a text that ends with the closing root tag and
  has the closing body tag before it is complete, and a text whose trimmed form does not
  end with the closing root tag is incomplete even with both tags in it.
\<close>

theorem is_html_complete_characterization:
  "is_html_complete s =
     (sublist ''</html>'' (strip (lower s)) \<and> sublist ''</body>'' (strip (lower s))
      \<and> suffix ''</html>'' (strip (lower s)))
   \<and> (\<not> (sublist ''</html>'' (strip (lower s)) \<and> sublist ''</body>'' (strip (lower s)))
        \<longrightarrow> \<not> is_html_complete s)
   \<and> is_html_complete (u @ ''</body>'' @ v @ ''</html>'')
   \<and> (\<not> suffix ''</html>'' (strip (lower s)) \<longrightarrow> \<not> is_html_complete s)"
  using is_html_complete_iff [of s] complete_when_tags_in_order [of u v] by blast

theorem is_html_complete_characterization_witness:
  "is_html_complete ''<HTML><Body>x</BODY></HTML>  ''
   \<and> \<not> is_html_complete ''<body></html></body>''
   \<and> \<not> is_html_complete ''<html>x</html>''
   \<and> is_html_complete (''<html><body>'' @ ''</body>'' @ ''\<newline>'' @ ''</html>'')"
proof -
  have 1: "sublist ''</html>'' (strip (lower ''<HTML><Body>x</BODY></HTML>  ''))"
    and 2: "sublist ''</body>'' (strip (lower ''<HTML><Body>x</BODY></HTML>  ''))"
    and 3: "suffix ''</html>'' (strip (lower ''<HTML><Body>x</BODY></HTML>  ''))"
    and 4: "\<not> suffix ''</html>'' (strip (lower ''<body></html></body>''))"
    and 5: "\<not> sublist ''</body>'' (strip (lower ''<html>x</html>''))"
    by code_simp+
  show ?thesis
    using is_html_complete_characterization [of "''<HTML><Body>x</BODY></HTML>  ''" "''<html><body>''" "''\<newline>''"]
      is_html_complete_characterization [of "''<body></html></body>''" "[]" "[]"]
      is_html_complete_characterization [of "''<html>x</html>''" "[]" "[]"]
      1 2 3 4 5
    by blast
qed

section \<open>The Text Normalizer\<close>

text \<open>
  Claim C6. \<open>clean_html\<close> is idempotent, and a text without fence markers that is wrapped
  in a tagged fence, \<open>```html\<close> and a newline before it, a newline and \<open>```\<close> behind it, is
  normalized to the text itself, trimmed. Both hold for the function of \<open>server.py\<close> and
  for the one of \<open>showcase/server.py\<close>.
\<close>

theorem clean_html_idempotent_round_trip:
  "clean_html (clean_html s) = clean_html s
   \<and> showcase_clean_html (showcase_clean_html s) = showcase_clean_html s
   \<and> (\<not> sublist ''```'' t \<longrightarrow>
        clean_html (''```html\<newline>'' @ t @ ''\<newline>```'') = strip t
        \<and> showcase_clean_html (''```html\<newline>'' @ t @ ''\<newline>```'') = strip t)"
  using clean_html_idem [of s] clean_html_round_trip [of t]
  by (simp add: showcase_clean_html_eq)

theorem clean_html_idempotent_round_trip_witness:
  "clean_html (clean_html ''`````html`html'') = clean_html ''`````html`html''
   \<and> \<not> sublist ''```'' '' <p>``hi``</p>\<newline> ''
   \<and> clean_html (''```html\<newline>'' @ '' <p>``hi``</p>\<newline> '' @ ''\<newline>```'') = ''<p>``hi``</p>''"
proof -
  have 1: "\<not> sublist ''```'' '' <p>``hi``</p>\<newline> ''" by code_simp
  have 2: "strip '' <p>``hi``</p>\<newline> '' = ''<p>``hi``</p>''" by code_simp
  show ?thesis
    using clean_html_idempotent_round_trip [of "''`````html`html''" "'' <p>``hi``</p>\<newline> ''"] 1 2
    by simp
qed

text \<open>
  Claim C7, as stated, says that a text without any fence marker is returned unchanged.
  It is returned trimmed: the text of a blank and the letter a has no marker and comes
  back without the blank.
\<close>

theorem clean_html_unchanged_counterexample:
  "\<not> sublist ''```html'' '' a'' \<and> \<not> sublist ''```'' '' a'' \<and> clean_html '' a'' \<noteq> '' a''"
  by code_simp

text \<open>
  Claim C7, amended. With a tagged opener in the text, the tagged markers and then the bare
  markers are taken out; otherwise, with a bare marker in it, the bare markers are taken
  out; otherwise nothing is taken out. In each case the result is then trimmed of leading
  and trailing whitespace. No marker, tagged or bare, is left in the result, and the result
  keeps characters of the input in their order and adds none.
\<close>

theorem clean_html_cases:
  "(sublist ''```html'' s \<longrightarrow>
      clean_html s = strip (re_sub_literal_nl ''```'' (re_sub_literal_nl ''```html'' s)))
   \<and> (\<not> sublist ''```html'' s \<and> sublist ''```'' s \<longrightarrow>
      clean_html s = strip (re_sub_literal_nl ''```'' s))
   \<and> (\<not> sublist ''```html'' s \<and> \<not> sublist ''```'' s \<longrightarrow> clean_html s = strip s)
   \<and> \<not> sublist ''```html'' (clean_html s) \<and> \<not> sublist ''```'' (clean_html s)
   \<and> subseq (clean_html s) s"
proof -
  have "sublist ''```html'' s \<longrightarrow>
      clean_html s = strip (re_sub_literal_nl ''```'' (re_sub_literal_nl ''```html'' s))"
    by (simp add: clean_html_def Let_def)
  moreover have "\<not> sublist ''```html'' s \<and> sublist ''```'' s \<longrightarrow>
      clean_html s = strip (re_sub_literal_nl ''```'' s)"
    by (simp add: clean_html_def Let_def)
  moreover have "\<not> sublist ''```html'' s \<and> \<not> sublist ''```'' s \<longrightarrow> clean_html s = strip s"
    by (simp add: clean_html_def Let_def)
  moreover have "\<not> sublist ''```'' (clean_html s)" by (rule clean_html_fence_free)
  moreover from this have "\<not> sublist ''```html'' (clean_html s)"
    using tagged_imp_bare by blast
  moreover have "subseq (clean_html s) s" by (rule subseq_clean_html)
  ultimately show ?thesis by blast
qed

theorem clean_html_cases_witness:
  "clean_html ''x```html\<newline><p>```\<newline>y```'' = ''x<p>y''
   \<and> clean_html '' ```\<newline>a``` '' = ''a''
   \<and> clean_html '' a '' = ''a''"
proof -
  have 1: "sublist ''```html'' ''x```html\<newline><p>```\<newline>y```''"
    and 2: "strip (re_sub_literal_nl ''```'' (re_sub_literal_nl ''```html'' ''x```html\<newline><p>```\<newline>y```'')) = ''x<p>y''"
    and 3: "\<not> sublist ''```html'' '' ```\<newline>a``` ''"
    and 4: "sublist ''```'' '' ```\<newline>a``` ''"
    and 5: "strip (re_sub_literal_nl ''```'' '' ```\<newline>a``` '') = ''a''"
    and 6: "\<not> sublist ''```html'' '' a ''"
    and 7: "\<not> sublist ''```'' '' a ''"
    and 8: "strip '' a '' = ''a''"
    by code_simp+
  show ?thesis
    using clean_html_cases [of "''x```html\<newline><p>```\<newline>y```''"]
      clean_html_cases [of "'' ```\<newline>a``` ''"]
      clean_html_cases [of "'' a ''"]
      1 2 3 4 5 6 7 8
    by simp
qed

section \<open>The Continuation Loop Engine\<close>

text \<open>
  Claim C1. Let the provider answer the calls of a request with the texts \<open>outputs\<close>,
  \<open>N + 1\<close> of them with \<open>N\<close> at most 5, and let the accumulated text be incomplete after
  the first output and after each of the first \<open>N - 1\<close> continuations and complete after
  the \<open>N\<close>-th. Then the engine, whatever the prompts, returns without an exception, it has
  sent exactly \<open>N + 1\<close> requests to the provider, and the text it returns is the normalized
  first output followed by the \<open>N\<close> normalized continuations, each behind exactly one
  newline. In the generate handler, when \<open>REQUIREMENTS.MD\<close> can be read, these \<open>N + 1\<close>
  requests are all it sends; when the file is written, its response carries this text and
  the file holds it, and when writing the file raises, it answers 500 with the message of
  the exception and the store is as the failed write has left it.
\<close>

theorem continuation_loop_calls_and_output:
  assumes "N \<le> 5"
    and "length outputs = N + 1"
    and "\<forall>i\<le>N. provider (length (gateway_log w) + i) = Inr (outputs ! i)"
    and "\<forall>k<N. \<not> is_html_complete (spec_joined_outputs (take (Suc k) outputs))"
    and "is_html_complete (spec_joined_outputs outputs)"
  shows "fst (continuation_loop_engine provider user_prompt system_prompt w)
           = Inr \<lparr>cleaned_html = spec_joined_outputs outputs, continuation_attempts = N\<rparr>
     \<and> length (gateway_log (snd (continuation_loop_engine provider user_prompt system_prompt w)))
         = length (gateway_log w) + (N + 1)
     \<and> spec_joined_outputs outputs
         = foldl (\<lambda>acc out. acc @ ''\<newline>'' @ clean_html out) (clean_html (hd outputs)) (tl outputs)
     \<and> ((\<forall>e. requirements_md w \<noteq> Some (Inl e)) \<longrightarrow>
          length (gateway_log (snd (generate_design_system provider w request)))
            = length (gateway_log w) + (N + 1)
          \<and> (\<forall>w3. write_text w (spec_file_name (name request)) (spec_joined_outputs outputs)
                  = (Inr (), w3) \<longrightarrow>
                fst (generate_design_system provider w request) =
                  Inr \<lparr>GenerateSystemResponse.success = True,
                       GenerateSystemResponse.fileName = spec_file_name (name request),
                       GenerateSystemResponse.path = ''/systems/'' @ spec_file_name (name request),
                       GenerateSystemResponse.content = spec_joined_outputs outputs\<rparr>
                \<and> systems (snd (generate_design_system provider w request))
                    = (systems w)(spec_file_name (name request) \<mapsto> spec_joined_outputs outputs))
          \<and> (\<forall>e w3. write_text w (spec_file_name (name request)) (spec_joined_outputs outputs)
                  = (Inl e, w3) \<longrightarrow>
                fst (generate_design_system provider w request)
                  = Inl (HTTPException 500 (''Failed to generate design system: '' @ str e))
                \<and> systems (snd (generate_design_system provider w request)) = systems w3))"
proof -
  have len: "length outputs = Suc N" and n: "N \<le> max_continuations"
    using assms(1,2) by (simp_all add: max_continuations_def)
  have last: "is_html_complete (spec_joined_outputs outputs) \<or> N = max_continuations"
    using assms(5) by simp
  note run = engine_run [OF len n assms(3,4) last]
  have eng: "\<exists>w2. continuation_loop_engine provider up sp w =
                 (Inr \<lparr>cleaned_html = spec_joined_outputs outputs, continuation_attempts = N\<rparr>, w2)
               \<and> length (gateway_log w2) = length (gateway_log w) + (N + 1) \<and> same_files w w2"
    for up sp
    using run [of up sp] by simp
  have a: "fst (continuation_loop_engine provider user_prompt system_prompt w)
           = Inr \<lparr>cleaned_html = spec_joined_outputs outputs, continuation_attempts = N\<rparr>
     \<and> length (gateway_log (snd (continuation_loop_engine provider user_prompt system_prompt w)))
         = length (gateway_log w) + (N + 1)"
    using eng [of user_prompt system_prompt] by auto
  have b: "spec_joined_outputs outputs
         = foldl (\<lambda>acc out. acc @ ''\<newline>'' @ clean_html out) (clean_html (hd outputs)) (tl outputs)"
  proof -
    have "append_continuation = (\<lambda>acc out. acc @ ''\<newline>'' @ clean_html out)"
      by (simp add: fun_eq_iff append_continuation_def)
    then show ?thesis by (simp add: spec_joined_outputs_def)
  qed
  have c: "length (gateway_log (snd (generate_design_system provider w request)))
            = length (gateway_log w) + (N + 1)
          \<and> (\<forall>w3. write_text w (spec_file_name (name request)) (spec_joined_outputs outputs)
                  = (Inr (), w3) \<longrightarrow>
                fst (generate_design_system provider w request) =
                  Inr \<lparr>GenerateSystemResponse.success = True,
                       GenerateSystemResponse.fileName = spec_file_name (name request),
                       GenerateSystemResponse.path = ''/systems/'' @ spec_file_name (name request),
                       GenerateSystemResponse.content = spec_joined_outputs outputs\<rparr>
                \<and> systems (snd (generate_design_system provider w request))
                    = (systems w)(spec_file_name (name request) \<mapsto> spec_joined_outputs outputs))
          \<and> (\<forall>e w3. write_text w (spec_file_name (name request)) (spec_joined_outputs outputs)
                  = (Inl e, w3) \<longrightarrow>
                fst (generate_design_system provider w request)
                  = Inl (HTTPException 500 (''Failed to generate design system: '' @ str e))
                \<and> systems (snd (generate_design_system provider w request)) = systems w3)"
    if rq: "\<forall>e. requirements_md w \<noteq> Some (Inl e)"
    using generate_after_engine [OF rq eng, of request] by simp
  from a b c show ?thesis by blast
qed

theorem continuation_loop_calls_and_output_witness:
  "fst (continuation_loop_engine
          (\<lambda>k. if k = 0 then Inr ''```html\<newline><html><body><p'' else Inr ''>hi</p></body></html>'')
          ''Create Ocean'' ''You are an expert''
          \<lparr>systems = Map.empty, non_files = Map.empty, os_error = (\<lambda>op. Map.empty),
           write_fault = (\<lambda>n. Map.empty), requirements_md = None, gateway_log = []\<rparr>)
     = Inr \<lparr>cleaned_html = ''<html><body><p\<newline>>hi</p></body></html>'', continuation_attempts = 1\<rparr>
   \<and> fst (generate_design_system
          (\<lambda>k. if k = 0 then Inr ''```html\<newline><html><body><p'' else Inr ''>hi</p></body></html>'')
          \<lparr>systems = Map.empty, non_files = Map.empty, os_error = (\<lambda>op. Map.empty),
           write_fault = (\<lambda>n. Map.empty), requirements_md = None, gateway_log = []\<rparr>
          \<lparr>name = ''Ocean'', prompt = ''blue''\<rparr>)
     = Inr \<lparr>GenerateSystemResponse.success = True,
            GenerateSystemResponse.fileName = ''ocean.html'',
            GenerateSystemResponse.path = ''/systems/ocean.html'',
            GenerateSystemResponse.content = ''<html><body><p\<newline>>hi</p></body></html>''\<rparr>
   \<and> length (gateway_log (snd (generate_design_system
          (\<lambda>k. if k = 0 then Inr ''```html\<newline><html><body><p'' else Inr ''>hi</p></body></html>'')
          \<lparr>systems = Map.empty, non_files = Map.empty, os_error = (\<lambda>op. Map.empty),
           write_fault = (\<lambda>n. Map.empty), requirements_md = None, gateway_log = []\<rparr>
          \<lparr>name = ''Ocean'', prompt = ''blue''\<rparr>))) = 2"
proof -
  let ?outputs = "[''```html\<newline><html><body><p'', ''>hi</p></body></html>'']"
  let ?p = "\<lambda>k::nat. if k = 0 then Inr ''```html\<newline><html><body><p'' else (Inr ''>hi</p></body></html>'' :: exn + string)"
  let ?w = "\<lparr>systems = Map.empty, non_files = Map.empty, os_error = (\<lambda>op. Map.empty),
           write_fault = (\<lambda>n. Map.empty), requirements_md = None, gateway_log = []\<rparr>"
  let ?rq = "\<lparr>name = ''Ocean'', prompt = ''blue''\<rparr>"
  have j: "spec_joined_outputs ?outputs = ''<html><body><p\<newline>>hi</p></body></html>''"
    by code_simp
  have 1: "(1::nat) \<le> 5" by simp
  have 2: "length ?outputs = 1 + 1" by simp
  have 3: "\<forall>i\<le>1. ?p (length (gateway_log ?w) + i) = Inr (?outputs ! i)"
    by (simp add: le_Suc_eq)
  have "\<not> is_html_complete (spec_joined_outputs (take (Suc 0) ?outputs))" by code_simp
  then have 4: "\<forall>k<1. \<not> is_html_complete (spec_joined_outputs (take (Suc k) ?outputs))"
    by simp
  have 5: "is_html_complete (spec_joined_outputs ?outputs)" by code_simp
  have n: "spec_file_name ''Ocean'' = ''ocean.html''" by code_simp
  have wr: "write_text ?w ''ocean.html'' ''<html><body><p\<newline>>hi</p></body></html>''
    = (Inr (), ?w\<lparr>systems := (systems ?w)(''ocean.html'' \<mapsto> ''<html><body><p\<newline>>hi</p></body></html>'')\<rparr>)"
    by (simp add: write_text_def)
  have rq: "\<forall>e. requirements_md ?w \<noteq> Some (Inl e)" by simp
  from continuation_loop_calls_and_output [OF 1 2 3 4 5,
      where user_prompt = "''Create Ocean''" and system_prompt = "''You are an expert''"
        and request = ?rq]
  show ?thesis
    unfolding j GenerateSystemRequest.simps n using wr rq by simp
qed

text \<open>
  Claim C2. When the accumulated text is never complete, not after the first output and
  not after any of the five continuations, and the provider answers all six calls, the
  engine sends exactly six requests and then returns the accumulated text with the counter
  at 5: a result, not an exception. In the generate handler, when \<open>REQUIREMENTS.MD\<close> can be
  read, these six requests are all it sends, and when the file is written the answer is a
  response with the four fields \<open>success\<close>, \<open>fileName\<close>, \<open>path\<close> and \<open>content\<close>, the
  accumulated text in the last, and no flag for an incomplete text. The status 500 is left
  to the case that writing the file raises.
\<close>

theorem budget_exhaustion_is_success:
  assumes "length outputs = max_continuations + 1"
    and "\<forall>i\<le>max_continuations. provider (length (gateway_log w) + i) = Inr (outputs ! i)"
    and "\<forall>k\<le>max_continuations. \<not> is_html_complete (spec_joined_outputs (take (Suc k) outputs))"
  shows "fst (continuation_loop_engine provider user_prompt system_prompt w)
           = Inr \<lparr>cleaned_html = spec_joined_outputs outputs, continuation_attempts = 5\<rparr>
     \<and> length (gateway_log (snd (continuation_loop_engine provider user_prompt system_prompt w)))
         = length (gateway_log w) + 6
     \<and> max_continuations = 5
     \<and> ((\<forall>e. requirements_md w \<noteq> Some (Inl e)) \<longrightarrow>
          length (gateway_log (snd (generate_design_system provider w request)))
            = length (gateway_log w) + 6
          \<and> (\<forall>w3. write_text w (spec_file_name (name request)) (spec_joined_outputs outputs)
                  = (Inr (), w3) \<longrightarrow>
                fst (generate_design_system provider w request) =
                  Inr \<lparr>GenerateSystemResponse.success = True,
                       GenerateSystemResponse.fileName = spec_file_name (name request),
                       GenerateSystemResponse.path = ''/systems/'' @ spec_file_name (name request),
                       GenerateSystemResponse.content = spec_joined_outputs outputs\<rparr>
                \<and> systems (snd (generate_design_system provider w request))
                    = (systems w)(spec_file_name (name request) \<mapsto> spec_joined_outputs outputs))
          \<and> (\<forall>e w3. write_text w (spec_file_name (name request)) (spec_joined_outputs outputs)
                  = (Inl e, w3) \<longrightarrow>
                fst (generate_design_system provider w request)
                  = Inl (HTTPException 500 (''Failed to generate design system: '' @ str e))
                \<and> systems (snd (generate_design_system provider w request)) = systems w3))"
proof -
  have m: "max_continuations = 5" by (simp add: max_continuations_def)
  have len: "length outputs = Suc max_continuations" using assms(1) by simp
  have inc: "\<forall>k<max_continuations. \<not> is_html_complete (spec_joined_outputs (take (Suc k) outputs))"
    using assms(3) by simp
  note run = engine_run [OF len order_refl assms(2) inc]
  have eng: "\<exists>w2. continuation_loop_engine provider up sp w =
                 (Inr \<lparr>cleaned_html = spec_joined_outputs outputs, continuation_attempts = 5\<rparr>, w2)
               \<and> length (gateway_log w2) = length (gateway_log w) + 6 \<and> same_files w w2"
    for up sp
    using run [of up sp] by (auto simp: m)
  have a: "fst (continuation_loop_engine provider user_prompt system_prompt w)
           = Inr \<lparr>cleaned_html = spec_joined_outputs outputs, continuation_attempts = 5\<rparr>
     \<and> length (gateway_log (snd (continuation_loop_engine provider user_prompt system_prompt w)))
         = length (gateway_log w) + 6"
    using eng [of user_prompt system_prompt] by auto
  have c: "length (gateway_log (snd (generate_design_system provider w request)))
            = length (gateway_log w) + 6
          \<and> (\<forall>w3. write_text w (spec_file_name (name request)) (spec_joined_outputs outputs)
                  = (Inr (), w3) \<longrightarrow>
                fst (generate_design_system provider w request) =
                  Inr \<lparr>GenerateSystemResponse.success = True,
                       GenerateSystemResponse.fileName = spec_file_name (name request),
                       GenerateSystemResponse.path = ''/systems/'' @ spec_file_name (name request),
                       GenerateSystemResponse.content = spec_joined_outputs outputs\<rparr>
                \<and> systems (snd (generate_design_system provider w request))
                    = (systems w)(spec_file_name (name request) \<mapsto> spec_joined_outputs outputs))
          \<and> (\<forall>e w3. write_text w (spec_file_name (name request)) (spec_joined_outputs outputs)
                  = (Inl e, w3) \<longrightarrow>
                fst (generate_design_system provider w request)
                  = Inl (HTTPException 500 (''Failed to generate design system: '' @ str e))
                \<and> systems (snd (generate_design_system provider w request)) = systems w3)"
    if rq: "\<forall>e. requirements_md w \<noteq> Some (Inl e)"
    using generate_after_engine [OF rq eng, of request] by simp
  from a m c show ?thesis by blast
qed

theorem budget_exhaustion_is_success_witness:
  "fst (continuation_loop_engine (\<lambda>k. Inr ''<p>'') ''Create My System'' ''You are an expert''
          \<lparr>systems = Map.empty, non_files = Map.empty, os_error = (\<lambda>op. Map.empty),
           write_fault = (\<lambda>n. Map.empty), requirements_md = None, gateway_log = []\<rparr>)
     = Inr \<lparr>cleaned_html = ''<p>\<newline><p>\<newline><p>\<newline><p>\<newline><p>\<newline><p>'',
            continuation_attempts = 5\<rparr>
   \<and> fst (generate_design_system (\<lambda>k. Inr ''<p>'')
          \<lparr>systems = Map.empty, non_files = Map.empty, os_error = (\<lambda>op. Map.empty),
           write_fault = (\<lambda>n. Map.empty), requirements_md = None, gateway_log = []\<rparr>
          \<lparr>name = ''My System'', prompt = ''blue''\<rparr>)
     = Inr \<lparr>GenerateSystemResponse.success = True,
            GenerateSystemResponse.fileName = ''my-system.html'',
            GenerateSystemResponse.path = ''/systems/my-system.html'',
            GenerateSystemResponse.content =
              ''<p>\<newline><p>\<newline><p>\<newline><p>\<newline><p>\<newline><p>''\<rparr>
   \<and> length (gateway_log (snd (generate_design_system (\<lambda>k. Inr ''<p>'')
          \<lparr>systems = Map.empty, non_files = Map.empty, os_error = (\<lambda>op. Map.empty),
           write_fault = (\<lambda>n. Map.empty), requirements_md = None, gateway_log = []\<rparr>
          \<lparr>name = ''My System'', prompt = ''blue''\<rparr>))) = 6"
proof -
  let ?outputs = "replicate 6 ''<p>''"
  let ?p = "\<lambda>k::nat. (Inr ''<p>'' :: exn + string)"
  let ?w = "\<lparr>systems = Map.empty, non_files = Map.empty, os_error = (\<lambda>op. Map.empty),
           write_fault = (\<lambda>n. Map.empty), requirements_md = None, gateway_log = []\<rparr>"
  let ?rq = "\<lparr>name = ''My System'', prompt = ''blue''\<rparr>"
  let ?text = "''<p>\<newline><p>\<newline><p>\<newline><p>\<newline><p>\<newline><p>''"
  have m: "max_continuations = 5" by (simp add: max_continuations_def)
  have j: "spec_joined_outputs ?outputs = ?text" by code_simp
  have 1: "length ?outputs = max_continuations + 1" by (simp add: m)
  have 2: "\<forall>i\<le>max_continuations. ?p (length (gateway_log ?w) + i) = Inr (?outputs ! i)"
    by (simp add: m)
  have "list_all (\<lambda>k. \<not> is_html_complete (spec_joined_outputs (take (Suc k) ?outputs))) [0..<6]"
    by code_simp
  moreover have "k \<in> set [0..<6]" if "k \<le> max_continuations" for k :: nat
    using that by (simp add: m)
  ultimately have 3: "\<forall>k\<le>max_continuations.
      \<not> is_html_complete (spec_joined_outputs (take (Suc k) ?outputs))"
    unfolding list_all_iff by blast
  have n: "spec_file_name ''My System'' = ''my-system.html''" by code_simp
  have wr: "write_text ?w ''my-system.html'' ?text
    = (Inr (), ?w\<lparr>systems := (systems ?w)(''my-system.html'' \<mapsto> ?text)\<rparr>)"
    by (simp add: write_text_def)
  have rq: "\<forall>e. requirements_md ?w \<noteq> Some (Inl e)" by simp
  from budget_exhaustion_is_success [OF 1 2 3,
      where user_prompt = "''Create My System''" and system_prompt = "''You are an expert''"
        and request = ?rq and w = ?w]
  show ?thesis
    unfolding j GenerateSystemRequest.simps n using wr rq by simp
qed

text \<open>
  Claim C5. If a call that a generate request has sent to the provider, the first one or a
  continuation, raises an exception, then the request fails with the status 500 and the
  message of that exception, this call is the last one of the request, and the files of
  the store are the ones from before the request.
\<close>

theorem provider_failure_atomicity:
  assumes "length (gateway_log w) + i
             < length (gateway_log (snd (generate_design_system provider w request)))"
    and "provider (length (gateway_log w) + i) = Inl e"
  shows "fst (generate_design_system provider w request)
           = Inl (HTTPException 500 (''Failed to generate design system: '' @ str e))
         \<and> length (gateway_log (snd (generate_design_system provider w request)))
             = length (gateway_log w) + Suc i
         \<and> systems (snd (generate_design_system provider w request)) = systems w"
proof (cases "\<forall>e. requirements_md w \<noteq> Some (Inl e)")
  case False
  then obtain e0 where "requirements_md w = Some (Inl e0)" by blast
  from generate_requirements_raise [OF this] assms(1) show ?thesis by simp
next
  case True
  from requirements_readable [OF True] obtain req where
    req: "(case requirements_md w of None \<Rightarrow> Inr [] | Some r \<Rightarrow> r) = Inr req" by blast
  obtain x w2 where eng: "continuation_loop_engine provider (generate_user_prompt request)
           (generate_system_prompt req) w = (x, w2)"
    by (cases "continuation_loop_engine provider (generate_user_prompt request)
           (generate_system_prompt req) w")
  note g = generate_unfold [OF req eng]
  note eff = engine_effects [OF eng]
  have len: "length (gateway_log (snd (generate_design_system provider w request)))
               = length (gateway_log w2)"
  proof (cases x)
    case (Inl e1)
    with g show ?thesis by simp
  next
    case (Inr s)
    obtain r w3 where wt: "write_text w2 (spec_file_name (name request)) (cleaned_html s)
        = (r, w3)"
      by (cases "write_text w2 (spec_file_name (name request)) (cleaned_html s)")
    have "gateway_log w3 = gateway_log w2"
      using write_text_log [of w2 "spec_file_name (name request)" "cleaned_html s"] wt by simp
    with g Inr wt show ?thesis by (cases r) simp_all
  qed
  with assms eff have "x = Inl e \<and> length (gateway_log w2) = length (gateway_log w) + Suc i"
    by auto
  with g len eff show ?thesis by (simp add: same_files_def)
qed

theorem provider_failure_atomicity_witness:
  "fst (generate_design_system
          (\<lambda>k. if k = 1 then Inl (Exception ''rate limit'') else Inr ''<html>'')
          \<lparr>systems = Map.empty, non_files = Map.empty, os_error = (\<lambda>op. Map.empty),
           write_fault = (\<lambda>n. Map.empty), requirements_md = None, gateway_log = []\<rparr>
          \<lparr>name = ''Ocean'', prompt = ''blue''\<rparr>)
     = Inl (HTTPException 500 ''Failed to generate design system: rate limit'')
   \<and> length (gateway_log (snd (generate_design_system
          (\<lambda>k. if k = 1 then Inl (Exception ''rate limit'') else Inr ''<html>'')
          \<lparr>systems = Map.empty, non_files = Map.empty, os_error = (\<lambda>op. Map.empty),
           write_fault = (\<lambda>n. Map.empty), requirements_md = None, gateway_log = []\<rparr>
          \<lparr>name = ''Ocean'', prompt = ''blue''\<rparr>))) = 2
   \<and> systems (snd (generate_design_system
          (\<lambda>k. if k = 1 then Inl (Exception ''rate limit'') else Inr ''<html>'')
          \<lparr>systems = Map.empty, non_files = Map.empty, os_error = (\<lambda>op. Map.empty),
           write_fault = (\<lambda>n. Map.empty), requirements_md = None, gateway_log = []\<rparr>
          \<lparr>name = ''Ocean'', prompt = ''blue''\<rparr>)) ''ocean.html'' = None"
proof -
  let ?p = "\<lambda>k::nat. if k = 1 then Inl (Exception ''rate limit'') else (Inr ''<html>'' :: exn + string)"
  let ?w = "\<lparr>systems = Map.empty, non_files = Map.empty, os_error = (\<lambda>op. Map.empty),
           write_fault = (\<lambda>n. Map.empty), requirements_md = None, gateway_log = []\<rparr>"
  let ?rq = "\<lparr>name = ''Ocean'', prompt = ''blue''\<rparr>"
  let ?up = "generate_user_prompt ?rq"
  let ?sp = "generate_system_prompt []"
  have p0: "?p (length (gateway_log ?w)) = Inr ''<html>''" by simp
  from engine_first_call_returns [of ?p ?w "''<html>''" ?up ?sp] p0 obtain w1 where
    w1: "length (gateway_log w1) = Suc (length (gateway_log ?w))"
    and eng: "continuation_loop_engine ?p ?up ?sp ?w =
               continuation_loop ?p \<lparr>cleaned_html = clean_html ''<html>'', continuation_attempts = 0\<rparr> w1"
    by blast
  let ?s0 = "\<lparr>cleaned_html = clean_html ''<html>'', continuation_attempts = 0\<rparr>"
  have "\<not> is_html_complete (clean_html ''<html>'')" by code_simp
  then have cond: "loop_cond ?s0" by (simp add: loop_cond_def max_continuations_def)
  have "?p (length (gateway_log w1)) = Inl (Exception ''rate limit'')" using w1 by simp
  from loop_body_Inl [of ?p w1 "Exception ''rate limit''" ?s0] this obtain w2 where
    body: "loop_body ?p ?s0 w1 = (Inl (Exception ''rate limit''), w2)"
    and w2: "length (gateway_log w2) = Suc (length (gateway_log w1))"
    by blast
  have "continuation_loop ?p ?s0 w1 = (Inl (Exception ''rate limit''), w2)"
    using cond body by (rule continuation_loop_raise)
  with eng have e2: "continuation_loop_engine ?p ?up ?sp ?w = (Inl (Exception ''rate limit''), w2)"
    by simp
  have "(case requirements_md ?w of None \<Rightarrow> Inr [] | Some r \<Rightarrow> r) = Inr []" by simp
  from generate_unfold [OF this e2] w1 w2
  have "length (gateway_log (snd (generate_design_system ?p ?w ?rq))) = 2"
    by simp
  then have 1: "length (gateway_log ?w) + 1 < length (gateway_log (snd (generate_design_system ?p ?w ?rq)))"
    by simp
  have 2: "?p (length (gateway_log ?w) + 1) = Inl (Exception ''rate limit'')" by simp
  show ?thesis
    using provider_failure_atomicity [OF 1 2] by simp
qed

text \<open>
  Claim C3. The loop is the same in the generate and in the edit handler and starts with the
  attempt counter at 0. After any number \<open>n\<close> of iterations the counter is \<open>n\<close> and at most
  the maximum of 5, and the accumulated text is at least as long as at the start; a further
  iteration appends a newline and a normalized continuation, so the text gets longer, and
  leaves the counter at most 5. Whatever the provider answers, the loop ends after at most
  5 iterations, with the loop variables of the last iteration or with the exception that
  the next call raised.
\<close>

theorem continuation_state_invariant:
  "((iteration provider ^^ n) (\<lparr>cleaned_html = h0, continuation_attempts = 0\<rparr>, w0) (s, w) \<longrightarrow>
      n \<le> 5 \<and> continuation_attempts s = n \<and> continuation_attempts s \<le> max_continuations
      \<and> length h0 \<le> length (cleaned_html s)
      \<and> (\<forall>s' w'. iteration provider (s, w) (s', w') \<longrightarrow>
            length (cleaned_html s) < length (cleaned_html s')
            \<and> (\<exists>out. cleaned_html s' = cleaned_html s @ ''\<newline>'' @ clean_html out)
            \<and> continuation_attempts s' \<le> max_continuations))
   \<and> (\<exists>m\<le>5. \<exists>sm wm.
         (iteration provider ^^ m) (\<lparr>cleaned_html = h0, continuation_attempts = 0\<rparr>, w0) (sm, wm)
         \<and> (continuation_loop provider \<lparr>cleaned_html = h0, continuation_attempts = 0\<rparr> w0 = (Inr sm, wm)
               \<and> \<not> loop_cond sm
             \<or> (\<exists>e w'. continuation_loop provider \<lparr>cleaned_html = h0, continuation_attempts = 0\<rparr> w0
                          = (Inl e, w')
                   \<and> loop_body provider sm wm = (Inl e, w'))))
   \<and> max_continuations = 5"
proof -
  let ?init = "\<lparr>cleaned_html = h0, continuation_attempts = 0\<rparr>"
  have bound: "k \<le> 5 \<and> continuation_attempts t = k \<and> continuation_attempts t \<le> max_continuations
      \<and> length h0 \<le> length (cleaned_html t)"
    if "(iteration provider ^^ k) (?init, w0) (t, v)" for k t v
    using iteration_chain [OF that] by (cases k) (auto simp: max_continuations_def)
  have step: "length (cleaned_html t) < length (cleaned_html t')
            \<and> (\<exists>out. cleaned_html t' = cleaned_html t @ ''\<newline>'' @ clean_html out)
            \<and> continuation_attempts t' \<le> max_continuations"
    if "iteration provider (t, v) (t', v')" for t v t' v'
    using iteration_step [OF that] by (auto simp: loop_cond_def)
  obtain r w' where run: "continuation_loop provider ?init w0 = (r, w')"
    by (cases "continuation_loop provider ?init w0")
  from continuation_loop_chain [OF run] obtain m sm wm where
    chain: "(iteration provider ^^ m) (?init, w0) (sm, wm)"
    and fin: "r = Inr sm \<and> w' = wm \<and> \<not> loop_cond sm
           \<or> (\<exists>e. r = Inl e \<and> loop_cond sm \<and> loop_body provider sm wm = (Inl e, w'))"
    by blast
  from bound [OF chain] have "m \<le> 5" by simp
  with chain fin run have "\<exists>m\<le>5. \<exists>sm wm.
         (iteration provider ^^ m) (?init, w0) (sm, wm)
         \<and> (continuation_loop provider ?init w0 = (Inr sm, wm) \<and> \<not> loop_cond sm
             \<or> (\<exists>e w'. continuation_loop provider ?init w0 = (Inl e, w')
                   \<and> loop_body provider sm wm = (Inl e, w')))"
    by blast
  with bound step show ?thesis by (simp add: max_continuations_def)
qed

theorem continuation_state_invariant_witness:
  "(iteration (\<lambda>k. Inr ''```\<newline><q>'') ^^ 1)
      (\<lparr>cleaned_html = ''<p>'', continuation_attempts = 0\<rparr>,
       \<lparr>systems = Map.empty, non_files = Map.empty, os_error = (\<lambda>op. Map.empty),
        write_fault = (\<lambda>n. Map.empty), requirements_md = None, gateway_log = []\<rparr>)
      (\<lparr>cleaned_html = ''<p>\<newline><q>'', continuation_attempts = 1\<rparr>,
       snd (loop_body (\<lambda>k. Inr ''```\<newline><q>'')
              \<lparr>cleaned_html = ''<p>'', continuation_attempts = 0\<rparr>
              \<lparr>systems = Map.empty, non_files = Map.empty, os_error = (\<lambda>op. Map.empty),
        write_fault = (\<lambda>n. Map.empty), requirements_md = None, gateway_log = []\<rparr>))
   \<and> (1::nat) \<le> 5
   \<and> length ''<p>'' \<le> length ''<p>\<newline><q>''
   \<and> max_continuations = 5"
proof -
  let ?p = "\<lambda>k::nat. (Inr ''```\<newline><q>'' :: exn + string)"
  let ?s0 = "\<lparr>cleaned_html = ''<p>'', continuation_attempts = 0\<rparr>"
  let ?w0 = "\<lparr>systems = Map.empty, non_files = Map.empty, os_error = (\<lambda>op. Map.empty),
        write_fault = (\<lambda>n. Map.empty), requirements_md = None, gateway_log = []\<rparr>"
  let ?s1 = "\<lparr>cleaned_html = ''<p>\<newline><q>'', continuation_attempts = 1\<rparr>"
  have c: "clean_html ''```\<newline><q>'' = ''<q>''" by code_simp
  have "\<not> is_html_complete ''<p>''" by code_simp
  then have cond: "loop_cond ?s0" by (simp add: loop_cond_def max_continuations_def)
  from loop_body_Inr [of ?p ?w0 "''```\<newline><q>''" ?s0]
  have "fst (loop_body ?p ?s0 ?w0) = Inr ?s1"
    by (auto simp: append_continuation_def c)
  then have body: "loop_body ?p ?s0 ?w0 = (Inr ?s1, snd (loop_body ?p ?s0 ?w0))"
    by (metis prod.collapse)
  have "iteration ?p (?s0, ?w0) (?s1, snd (loop_body ?p ?s0 ?w0))"
    using cond body by (simp add: iteration_def)
  then have chain: "(iteration ?p ^^ 1) (?s0, ?w0) (?s1, snd (loop_body ?p ?s0 ?w0))"
    by (simp add: eq_OO)
  from continuation_state_invariant [where provider = ?p and n = 1 and ?h0.0 = "''<p>''"
      and ?w0.0 = ?w0 and s = ?s1 and w = "snd (loop_body ?p ?s0 ?w0)"] chain
  show ?thesis by (simp add: eq_OO)
qed

section \<open>The Document Store\<close>




text \<open>
  Claim C9, as stated, has the edit handler answer 404 exactly when the target file is
  absent. Under the empty name there is no file, but the path is the storage directory and
  exists; \<open>read_text\<close> raises, and the handler answers 500, before any call of the provider
  and with the world as it was.
\<close>

theorem edit_design_system_empty_name_counterexample:
  "systems \<lparr>systems = [''ocean.html'' \<mapsto> ''<html></html>''],
            non_files = ['''' \<mapsto> Exception ''[Errno 21] Is a directory''],
            os_error = (\<lambda>op. Map.empty),
            write_fault = (\<lambda>n. Map.empty), requirements_md = None, gateway_log = []\<rparr> '''' = None
   \<and> edit_design_system (\<lambda>k. Inr ''<html><body></body></html>'')
        \<lparr>systems = [''ocean.html'' \<mapsto> ''<html></html>''],
         non_files = ['''' \<mapsto> Exception ''[Errno 21] Is a directory''],
         os_error = (\<lambda>op. Map.empty),
         write_fault = (\<lambda>n. Map.empty), requirements_md = None, gateway_log = []\<rparr>
        \<lparr>EditSystemRequest.fileName = '''', comment = ''darker''\<rparr>
     = (Inl (HTTPException 500 ''Failed to edit design system: [Errno 21] Is a directory''),
        \<lparr>systems = [''ocean.html'' \<mapsto> ''<html></html>''],
         non_files = ['''' \<mapsto> Exception ''[Errno 21] Is a directory''],
         os_error = (\<lambda>op. Map.empty),
         write_fault = (\<lambda>n. Map.empty), requirements_md = None, gateway_log = []\<rparr>)
   \<and> fst (edit_design_system (\<lambda>k. Inr ''<html><body></body></html>'')
        \<lparr>systems = [''ocean.html'' \<mapsto> ''<html></html>''],
         non_files = ['''' \<mapsto> Exception ''[Errno 21] Is a directory''],
         os_error = (\<lambda>op. Map.empty),
         write_fault = (\<lambda>n. Map.empty), requirements_md = None, gateway_log = []\<rparr>
        \<lparr>EditSystemRequest.fileName = '''', comment = ''darker''\<rparr>)
     \<noteq> Inl (HTTPException 404 ''Design system file not found'')"
  by (simp add: edit_design_system_def path_exists_def read_text_def)

text \<open>
  Claim C9, amended. The edit handler fails with the status 404 exactly when \<open>exists\<close>
  returns false, that is when it does not raise and nothing, neither a file nor anything
  else, exists under the name; it then has sent nothing to the provider and written nothing,
  the world is as before. When \<open>exists\<close> raises, or the path exists and \<open>read_text\<close> raises
  (a directory, as under the empty name or \<open>.\<close>), it fails with the status 500, again with
  the world as before. It never fails with the status 400, whatever the name is.
\<close>

theorem edit_design_system_errors:
  "((\<exists>d. fst (edit_design_system provider w request) = Inl (HTTPException 404 d))
      \<longleftrightarrow> path_exists w (EditSystemRequest.fileName request) = Inr False)
   \<and> (path_exists w (EditSystemRequest.fileName request) = Inr False
      \<longleftrightarrow> os_error w Exists (EditSystemRequest.fileName request) = None
          \<and> systems w (EditSystemRequest.fileName request) = None
          \<and> non_files w (EditSystemRequest.fileName request) = None)
   \<and> (path_exists w (EditSystemRequest.fileName request) = Inr False \<longrightarrow>
        edit_design_system provider w request
          = (Inl (HTTPException 404 ''Design system file not found''), w))
   \<and> (\<forall>e. path_exists w (EditSystemRequest.fileName request) = Inl e
            \<or> (path_exists w (EditSystemRequest.fileName request) = Inr True
                \<and> read_text w (EditSystemRequest.fileName request) = Inl e) \<longrightarrow>
        edit_design_system provider w request
          = (Inl (HTTPException 500 (''Failed to edit design system: '' @ str e)), w))
   \<and> (\<forall>d. fst (edit_design_system provider w request) \<noteq> Inl (HTTPException 400 d))"
proof -
  note o = edit_outcomes [of provider w request]
  have a: "(\<exists>d. fst (edit_design_system provider w request) = Inl (HTTPException 404 d))
      \<longleftrightarrow> path_exists w (EditSystemRequest.fileName request) = Inr False"
    using o edit_not_found [of w request provider] by auto
  have b: "\<forall>d. fst (edit_design_system provider w request) \<noteq> Inl (HTTPException 400 d)"
    using o by auto
  from a b path_exists_False_iff [of w "EditSystemRequest.fileName request"]
    edit_not_found [of w request provider]
    edit_exists_raises [of w request _ provider] edit_read_raises [of w request _ provider]
  show ?thesis by blast
qed

theorem edit_design_system_errors_witness:
  "edit_design_system (\<lambda>k. Inr ''<html><body></body></html>'')
      \<lparr>systems = [''ocean.html'' \<mapsto> ''<html></html>''],
       non_files = ['''' \<mapsto> Exception ''[Errno 21] Is a directory''],
       os_error = (\<lambda>op. Map.empty),
       write_fault = (\<lambda>n. Map.empty), requirements_md = None, gateway_log = []\<rparr>
      \<lparr>EditSystemRequest.fileName = ''../../etc/passwd'', comment = ''darker''\<rparr>
     = (Inl (HTTPException 404 ''Design system file not found''),
        \<lparr>systems = [''ocean.html'' \<mapsto> ''<html></html>''],
         non_files = ['''' \<mapsto> Exception ''[Errno 21] Is a directory''],
         os_error = (\<lambda>op. Map.empty),
         write_fault = (\<lambda>n. Map.empty), requirements_md = None, gateway_log = []\<rparr>)
   \<and> fst (edit_design_system (\<lambda>k. Inr ''<html><body></body></html>'')
      \<lparr>systems = [''ocean.html'' \<mapsto> ''<html></html>''],
       non_files = ['''' \<mapsto> Exception ''[Errno 21] Is a directory''],
       os_error = (\<lambda>op. Map.empty),
       write_fault = (\<lambda>n. Map.empty), requirements_md = None, gateway_log = []\<rparr>
      \<lparr>EditSystemRequest.fileName = ''ocean.html'', comment = ''darker''\<rparr>)
     \<noteq> Inl (HTTPException 404 ''Design system file not found'')
   \<and> edit_design_system (\<lambda>k. Inr ''<html><body></body></html>'')
      \<lparr>systems = [''ocean.html'' \<mapsto> ''<html></html>''],
       non_files = ['''' \<mapsto> Exception ''[Errno 21] Is a directory''],
       os_error = (\<lambda>op. Map.empty),
       write_fault = (\<lambda>n. Map.empty), requirements_md = None, gateway_log = []\<rparr>
      \<lparr>EditSystemRequest.fileName = '''', comment = ''darker''\<rparr>
     = (Inl (HTTPException 500 ''Failed to edit design system: [Errno 21] Is a directory''),
        \<lparr>systems = [''ocean.html'' \<mapsto> ''<html></html>''],
         non_files = ['''' \<mapsto> Exception ''[Errno 21] Is a directory''],
         os_error = (\<lambda>op. Map.empty),
         write_fault = (\<lambda>n. Map.empty), requirements_md = None, gateway_log = []\<rparr>)"
proof -
  let ?p = "\<lambda>k::nat. (Inr ''<html><body></body></html>'' :: exn + string)"
  let ?w = "\<lparr>systems = [''ocean.html'' \<mapsto> ''<html></html>''],
       non_files = ['''' \<mapsto> Exception ''[Errno 21] Is a directory''],
       os_error = (\<lambda>op. Map.empty),
       write_fault = (\<lambda>n. Map.empty), requirements_md = None, gateway_log = []\<rparr>"
  have 1: "path_exists ?w (EditSystemRequest.fileName
      \<lparr>EditSystemRequest.fileName = ''../../etc/passwd'', comment = ''darker''\<rparr>) = Inr False"
    by (simp add: path_exists_def)
  have 2: "path_exists ?w (EditSystemRequest.fileName
      \<lparr>EditSystemRequest.fileName = ''ocean.html'', comment = ''darker''\<rparr>) \<noteq> Inr False"
    by (simp add: path_exists_def)
  have 3: "path_exists ?w (EditSystemRequest.fileName
      \<lparr>EditSystemRequest.fileName = '''', comment = ''darker''\<rparr>) = Inr True
    \<and> read_text ?w (EditSystemRequest.fileName
      \<lparr>EditSystemRequest.fileName = '''', comment = ''darker''\<rparr>)
        = Inl (Exception ''[Errno 21] Is a directory'')"
    by (simp add: path_exists_def read_text_def)
  have 4: "''Failed to edit design system: '' @ str (Exception ''[Errno 21] Is a directory'')
      = ''Failed to edit design system: [Errno 21] Is a directory''" by simp
  show ?thesis
    using edit_design_system_errors [of ?p ?w "\<lparr>EditSystemRequest.fileName = ''../../etc/passwd'', comment = ''darker''\<rparr>"]
      edit_design_system_errors [of ?p ?w "\<lparr>EditSystemRequest.fileName = ''ocean.html'', comment = ''darker''\<rparr>"]
      edit_design_system_errors [of ?p ?w "\<lparr>EditSystemRequest.fileName = '''', comment = ''darker''\<rparr>"]
      1 2 3
    unfolding 4 [symmetric] by blast
qed

text \<open>
  Claim C10 at a display name with a separator in it. For the name \<open>../Evil Page\<close> the
  file name is derived as the claim says, \<open>../evil-page.html\<close>, and the document is written
  under it. Joined to the path of \<open>public/systems\<close>, this name is a file one directory
  above: the document is not in the storage directory. The delete handler refuses the same
  name as invalid.
\<close>

theorem generate_name_escapes_systems_directory:
  "fst (generate_design_system (\<lambda>k. Inr ''<body></body></html>'')
          \<lparr>systems = Map.empty, non_files = Map.empty, os_error = (\<lambda>op. Map.empty),
           write_fault = (\<lambda>n. Map.empty), requirements_md = None, gateway_log = []\<rparr>
          \<lparr>name = ''../Evil Page'', prompt = ''blue''\<rparr>)
     = Inr \<lparr>GenerateSystemResponse.success = True,
            GenerateSystemResponse.fileName = ''../evil-page.html'',
            GenerateSystemResponse.path = ''/systems/../evil-page.html'',
            GenerateSystemResponse.content = ''<body></body></html>''\<rparr>
   \<and> systems (snd (generate_design_system (\<lambda>k. Inr ''<body></body></html>'')
          \<lparr>systems = Map.empty, non_files = Map.empty, os_error = (\<lambda>op. Map.empty),
           write_fault = (\<lambda>n. Map.empty), requirements_md = None, gateway_log = []\<rparr>
          \<lparr>name = ''../Evil Page'', prompt = ''blue''\<rparr>)) ''../evil-page.html''
     = Some ''<body></body></html>''
   \<and> fst (delete_design_system
          (snd (generate_design_system (\<lambda>k. Inr ''<body></body></html>'')
             \<lparr>systems = Map.empty, non_files = Map.empty, os_error = (\<lambda>op. Map.empty),
              write_fault = (\<lambda>n. Map.empty), requirements_md = None, gateway_log = []\<rparr>
             \<lparr>name = ''../Evil Page'', prompt = ''blue''\<rparr>))
          ''../evil-page.html'')
     = Inl (HTTPException 400 ''Invalid file name'')"
proof -
  let ?outputs = "[''<body></body></html>'']"
  let ?p = "\<lambda>k::nat. (Inr ''<body></body></html>'' :: exn + string)"
  let ?w = "\<lparr>systems = Map.empty, non_files = Map.empty, os_error = (\<lambda>op. Map.empty),
           write_fault = (\<lambda>n. Map.empty), requirements_md = None, gateway_log = []\<rparr>"
  let ?rq = "\<lparr>name = ''../Evil Page'', prompt = ''blue''\<rparr>"
  let ?text = "''<body></body></html>''"
  have j: "spec_joined_outputs ?outputs = ?text" by code_simp
  have n: "spec_file_name ''../Evil Page'' = ''../evil-page.html''" by code_simp
  have 1: "length ?outputs = Suc 0" by simp
  have 2: "0 \<le> max_continuations" by simp
  have 3: "\<forall>i\<le>0. ?p (length (gateway_log ?w) + i) = Inr (?outputs ! i)" by simp
  have 4: "\<forall>k<0. \<not> is_html_complete (spec_joined_outputs (take (Suc k) ?outputs))" by simp
  have "is_html_complete (spec_joined_outputs ?outputs)" by code_simp
  then have 5: "is_html_complete (spec_joined_outputs ?outputs) \<or> 0 = max_continuations" by simp
  have eng: "\<exists>w2. continuation_loop_engine ?p up sp ?w =
                 (Inr \<lparr>cleaned_html = ?text, continuation_attempts = 0\<rparr>, w2)
               \<and> length (gateway_log w2) = length (gateway_log ?w) + 1 \<and> same_files ?w w2"
    for up sp
    using engine_run [OF 1 2 3 4 5, where w = ?w and user_prompt = up and system_prompt = sp]
    unfolding j by simp
  have rq: "\<forall>e. requirements_md ?w \<noteq> Some (Inl e)" by simp
  have wr: "write_text ?w ''../evil-page.html'' ?text
    = (Inr (), ?w\<lparr>systems := (systems ?w)(''../evil-page.html'' \<mapsto> ?text)\<rparr>)"
    by (simp add: write_text_def)
  from generate_after_engine [OF rq eng, of ?rq] wr
  have g: "fst (generate_design_system ?p ?w ?rq)
     = Inr \<lparr>GenerateSystemResponse.success = True,
            GenerateSystemResponse.fileName = ''../evil-page.html'',
            GenerateSystemResponse.path = ''/systems/../evil-page.html'',
            GenerateSystemResponse.content = ?text\<rparr>"
    and s: "systems (snd (generate_design_system ?p ?w ?rq))
      = (systems ?w)(''../evil-page.html'' \<mapsto> ?text)"
    unfolding GenerateSystemRequest.simps n ContinuationState.simps by simp_all
  have "sublist ''/'' ''../evil-page.html''" by (simp add: sublist_single)
  then have "fst (delete_design_system w' ''../evil-page.html'')
               = Inl (HTTPException 400 ''Invalid file name'')" for w'
    by (simp add: delete_design_system_def)
  with g s show ?thesis by simp
qed

end
